theory Spec2Isabelle
  imports Main "HOL-Library.AList" "HOL-Library.Signed_Division" "HOL-Library.Code_Target_Nat" "HOL-Library.Sublist"
begin

section \<open>Machine integers\<close>

text \<open>
  The sources mix \<open>int\<close> (32 bit) and \<open>size_t\<close> (64 bit).  Values of both types are
  modelled by unbounded numbers; the conversions and the wrap-around of \<open>size_t\<close> are
  written out where the code performs them.  Signed overflow of an \<open>int\<close> is undefined
  behaviour in C++ and is not modelled: an \<open>int\<close> counter is the mathematical integer.
\<close>

definition size_t_of_int :: "int \<Rightarrow> nat" where
  \<comment> \<open>the implicit conversion of an \<open>int\<close> operand in a comparison with a \<open>size_t\<close>\<close>
  "size_t_of_int i = nat (i mod 2 ^ 64)"

definition size_t_inc :: "nat \<Rightarrow> nat" where
  \<comment> \<open>\<open>++\<close> on a \<open>size_t\<close>\<close>
  "size_t_inc n = (n + 1) mod 2 ^ 64"

definition int_of_size_t :: "nat \<Rightarrow> int" where
  \<comment> \<open>storing a \<open>size_t\<close> into an \<open>int\<close>: the low 32 bits, read as two's complement\<close>
  "int_of_size_t n = (int n + 2 ^ 31) mod 2 ^ 32 - 2 ^ 31"

definition INT_MAX :: int where
  "INT_MAX = 2147483647"

section \<open>LRU engine (LRU.hpp)\<close>

text \<open>
  \<open>LRUNode\<close>: key, value and access counter.  The sentinel-delimited doubly linked list
  of an \<open>LRUCache\<close> is the list of its data nodes, read from \<open>_head->_next\<close> (least
  recently used) to \<open>_tail->_prev\<close> (most recently used).  \<open>_nodeMap\<close> is the index of
  that list: every operation of the class changes the map and the list together, so
  \<open>_nodeMap.find(key)\<close> is the search for the node with that key and
  \<open>_nodeMap.size()\<close> is the length of the list.
\<close>

record ('k, 'v) LRUNode =
  n_key :: 'k
  n_value :: 'v
  n_accessCount :: nat

record ('k, 'v) LRUCache =
  lru_capacity :: int
  lru_list :: "('k, 'v) LRUNode list"

definition LRUNode_new :: "'k \<Rightarrow> 'v \<Rightarrow> ('k, 'v) LRUNode" where
  "LRUNode_new k v = \<lparr>n_key = k, n_value = v, n_accessCount = 1\<rparr>"

definition LRUNode_incrementAccessCount :: "('k, 'v) LRUNode \<Rightarrow> ('k, 'v) LRUNode" where
  "LRUNode_incrementAccessCount n = n\<lparr>n_accessCount := size_t_inc (n_accessCount n)\<rparr>"

definition LRUCache_new :: "int \<Rightarrow> ('k, 'v) LRUCache" where
  "LRUCache_new cap = \<lparr>lru_capacity = cap, lru_list = []\<rparr>"

definition lru_find :: "('k, 'v) LRUCache \<Rightarrow> 'k \<Rightarrow> ('k, 'v) LRUNode option" where
  \<comment> \<open>\<open>_nodeMap.find(key)\<close>\<close>
  "lru_find c k = find (\<lambda>n. n_key n = k) (lru_list c)"

fun lru_unlink :: "'k \<Rightarrow> ('k, 'v) LRUNode list \<Rightarrow> ('k, 'v) LRUNode list" where
  "lru_unlink k [] = []"
| "lru_unlink k (n # ns) = (if n_key n = k then ns else n # lru_unlink k ns)"

definition LRUCache_removeNode :: "('k, 'v) LRUCache \<Rightarrow> ('k, 'v) LRUNode \<Rightarrow> ('k, 'v) LRUCache" where
  \<comment> \<open>unlinks the node when it is linked, and does nothing otherwise\<close>
  "LRUCache_removeNode c node = c\<lparr>lru_list := lru_unlink (n_key node) (lru_list c)\<rparr>"

definition LRUCache_insertNode :: "('k, 'v) LRUCache \<Rightarrow> ('k, 'v) LRUNode \<Rightarrow> ('k, 'v) LRUCache" where
  \<comment> \<open>links the node just before \<open>_tail\<close>\<close>
  "LRUCache_insertNode c node = c\<lparr>lru_list := lru_list c @ [node]\<rparr>"

definition LRUCache_moveToMostRecent :: "('k, 'v) LRUCache \<Rightarrow> ('k, 'v) LRUNode \<Rightarrow> ('k, 'v) LRUCache" where
  "LRUCache_moveToMostRecent c node = LRUCache_insertNode (LRUCache_removeNode c node) node"

definition LRUCache_updateExistringNode ::
  "('k, 'v) LRUCache \<Rightarrow> ('k, 'v) LRUNode \<Rightarrow> 'v \<Rightarrow> ('k, 'v) LRUCache" where
  "LRUCache_updateExistringNode c node v = LRUCache_moveToMostRecent c (node\<lparr>n_value := v\<rparr>)"

definition LRUCache_evictLeastRecent :: "('k, 'v) LRUCache \<Rightarrow> ('k, 'v) LRUCache" where
  \<comment> \<open>\<open>_head->_next\<close> is unlinked and its key erased from the map.  On an empty list
     \<open>_head->_next\<close> is \<open>_tail\<close>: \<open>removeNode\<close> skips it and the map, being empty, has no
     entry to erase.\<close>
  "LRUCache_evictLeastRecent c =
     (case lru_list c of [] \<Rightarrow> c | leastRecent # rest \<Rightarrow> c\<lparr>lru_list := rest\<rparr>)"

definition LRUCache_addNewNode :: "('k, 'v) LRUCache \<Rightarrow> 'k \<Rightarrow> 'v \<Rightarrow> ('k, 'v) LRUCache" where
  "LRUCache_addNewNode c k v =
     (let c1 = (if size_t_of_int (lru_capacity c) \<le> length (lru_list c)
                then LRUCache_evictLeastRecent c else c)
      in LRUCache_insertNode c1 (LRUNode_new k v))"

definition LRUCache_put :: "('k, 'v) LRUCache \<Rightarrow> 'k \<Rightarrow> 'v \<Rightarrow> ('k, 'v) LRUCache" where
  "LRUCache_put c k v =
     (if lru_capacity c \<le> 0 then c
      else case lru_find c k of
             Some node \<Rightarrow> LRUCache_updateExistringNode c node v
           | None \<Rightarrow> LRUCache_addNewNode c k v)"

text \<open>
  \<open>bool get(Key key, Value& value)\<close>: the second argument is the content of the
  out-parameter at the call; the result is the return value, the content of the
  out-parameter at the return, and the cache.
\<close>

definition LRUCache_get :: "('k, 'v) LRUCache \<Rightarrow> 'k \<Rightarrow> 'v \<Rightarrow> bool \<times> 'v \<times> ('k, 'v) LRUCache" where
  "LRUCache_get c k out =
     (case lru_find c k of
        Some node \<Rightarrow> (True, n_value node, LRUCache_moveToMostRecent c node)
      | None \<Rightarrow> (False, out, c))"

text \<open>
  \<open>Value get(Key key)\<close> declares \<open>Value value;\<close> and returns it after the call above.
  The local is default-initialised: default-constructed when \<open>Value\<close> is a class type,
  left uninitialised when it is a scalar type.  The argument \<open>uninit\<close> is the content
  of that local, whatever it is; on a miss it is what the function returns.
\<close>

definition LRUCache_get_value :: "('k, 'v) LRUCache \<Rightarrow> 'k \<Rightarrow> 'v \<Rightarrow> 'v \<times> ('k, 'v) LRUCache" where
  "LRUCache_get_value c k uninit = (case LRUCache_get c k uninit of (hit, v, c') \<Rightarrow> (v, c'))"

definition LRUCache_remove :: "('k, 'v) LRUCache \<Rightarrow> 'k \<Rightarrow> ('k, 'v) LRUCache" where
  "LRUCache_remove c k =
     (case lru_find c k of
        Some node \<Rightarrow> LRUCache_removeNode c node
      | None \<Rightarrow> c)"

text \<open>States of an \<open>LRUCache\<close> built with capacity \<open>cap\<close> and driven through its public
  operations.\<close>

inductive lru_reach :: "int \<Rightarrow> ('k, 'v) LRUCache \<Rightarrow> bool" for cap :: int where
  lru_reach_new: "lru_reach cap (LRUCache_new cap)"
| lru_reach_put: "lru_reach cap c \<Longrightarrow> lru_reach cap (LRUCache_put c k v)"
| lru_reach_get: "lru_reach cap c \<Longrightarrow> lru_reach cap (snd (snd (LRUCache_get c k out)))"
| lru_reach_remove: "lru_reach cap c \<Longrightarrow> lru_reach cap (LRUCache_remove c k)"

definition lru_keys :: "('k, 'v) LRUCache \<Rightarrow> 'k list" where
  "lru_keys c = map n_key (lru_list c)"

definition lru_inv :: "('k, 'v) LRUCache \<Rightarrow> bool" where
  \<comment> \<open>every key is linked at most once\<close>
  "lru_inv c \<longleftrightarrow> distinct (map n_key (lru_list c))"

section \<open>LRU-K admission filter (LRUK.hpp)\<close>

text \<open>
  \<open>LRUKCache\<close> derives from \<open>LRUCache<Key, Value>\<close> (the main cache, field \<open>lruk_main\<close>),
  and owns the history \<open>LRUCache<Key, size_t>\<close> and the staging map
  \<open>_historyValueMap\<close>, an association list here.

  \<open>_historyList->get(key)\<close> is the one-argument \<open>get\<close> of the history cache.  On a miss
  it returns its local \<open>Value value;\<close>, which for \<open>size_t\<close> is left uninitialised by the
  source (the comment in \<open>LRUKCache::get\<close> expects 0).  Every operation of the model
  that makes this call takes the content of that local as its last argument
  \<open>uninit\<close>: any \<open>size_t\<close> value, read only when the key has no record in the history.
\<close>

record ('k, 'v) LRUKCache =
  lruk_main :: "('k, 'v) LRUCache"
  lruk_k :: int
  lruk_historyList :: "('k, nat) LRUCache"
  lruk_historyValueMap :: "('k \<times> 'v) list"

definition LRUKCache_new :: "int \<Rightarrow> int \<Rightarrow> int \<Rightarrow> ('k, 'v) LRUKCache" where
  "LRUKCache_new cap historyCapacity k =
     \<lparr>lruk_main = LRUCache_new cap, lruk_k = k,
      lruk_historyList = LRUCache_new historyCapacity, lruk_historyValueMap = []\<rparr>"

definition lruk_bump_history :: "('k, nat) LRUCache \<Rightarrow> 'k \<Rightarrow> nat \<Rightarrow> nat \<times> ('k, nat) LRUCache" where
  \<comment> \<open>\<open>historyCount = _historyList->get(key); historyCount++;
     _historyList->put(key, historyCount);\<close>\<close>
  "lruk_bump_history h k uninit =
     (case LRUCache_get_value h k uninit of
        (old, h1) \<Rightarrow> (let historyCount = size_t_inc old in (historyCount, LRUCache_put h1 k historyCount)))"

text \<open>\<open>Value get(Key key)\<close>; \<open>dflt\<close> is the value-initialised \<open>Value value{}\<close>.\<close>

definition LRUKCache_get :: "('k, 'v) LRUKCache \<Rightarrow> 'k \<Rightarrow> 'v \<Rightarrow> nat \<Rightarrow> 'v \<times> ('k, 'v) LRUKCache" where
  "LRUKCache_get c k dflt uninit =
     (case LRUCache_get (lruk_main c) k dflt of
        (inMainCache, v, main1) \<Rightarrow>
          (case lruk_bump_history (lruk_historyList c) k uninit of
             (historyCount, hist1) \<Rightarrow>
               (let c1 = c\<lparr>lruk_main := main1, lruk_historyList := hist1\<rparr>
                in if inMainCache then (v, c1)
                   else if size_t_of_int (lruk_k c) \<le> historyCount then
                     (case map_of (lruk_historyValueMap c) k of
                        Some storedValue \<Rightarrow>
                          (storedValue,
                           c1\<lparr>lruk_historyList := LRUCache_remove hist1 k,
                              lruk_historyValueMap := AList.delete k (lruk_historyValueMap c),
                              lruk_main := LRUCache_put main1 k storedValue\<rparr>)
                      | None \<Rightarrow> (v, c1))
                   else (v, c1))))"

text \<open>In \<open>put\<close> the out-parameter of the first \<open>get\<close> is the discarded local
  \<open>exitingValue\<close>; its content does not reach the result.\<close>

definition LRUKCache_put :: "('k, 'v) LRUKCache \<Rightarrow> 'k \<Rightarrow> 'v \<Rightarrow> nat \<Rightarrow> ('k, 'v) LRUKCache" where
  "LRUKCache_put c k v uninit =
     (case LRUCache_get (lruk_main c) k v of
        (inMainCache, exitingValue, main1) \<Rightarrow>
          if inMainCache then c\<lparr>lruk_main := LRUCache_put main1 k v\<rparr>
          else
            (case lruk_bump_history (lruk_historyList c) k uninit of
               (historyCount, hist1) \<Rightarrow>
                 (let staged = AList.update k v (lruk_historyValueMap c)
                  in if size_t_of_int (lruk_k c) \<le> historyCount then
                       c\<lparr>lruk_main := LRUCache_put main1 k v,
                         lruk_historyList := LRUCache_remove hist1 k,
                         lruk_historyValueMap := AList.delete k staged\<rparr>
                     else
                       c\<lparr>lruk_main := main1, lruk_historyList := hist1,
                         lruk_historyValueMap := staged\<rparr>)))"

datatype ('k, 'v) cache_op = Put 'k 'v | Get 'k

text \<open>A run is a list of operations, each paired with the content of the
  uninitialised local of the history's \<open>get\<close> during that operation.\<close>

definition lruk_step ::
  "'v \<Rightarrow> ('k, 'v) LRUKCache \<Rightarrow> ('k, 'v) cache_op \<times> nat \<Rightarrow> ('k, 'v) LRUKCache" where
  "lruk_step dflt c opu =
     (case opu of
        (Put k v, uninit) \<Rightarrow> LRUKCache_put c k v uninit
      | (Get k, uninit) \<Rightarrow> snd (LRUKCache_get c k dflt uninit))"

definition lruk_run ::
  "'v \<Rightarrow> ('k, 'v) LRUKCache \<Rightarrow> (('k, 'v) cache_op \<times> nat) list \<Rightarrow> ('k, 'v) LRUKCache" where
  "lruk_run dflt c ops = foldl (lruk_step dflt) c ops"

definition lruk_resident :: "('k, 'v) LRUKCache \<Rightarrow> 'k \<Rightarrow> bool" where
  "lruk_resident c k \<longleftrightarrow> lru_find (lruk_main c) k \<noteq> None"

definition lruk_history_read :: "('k, 'v) LRUKCache \<Rightarrow> 'k \<Rightarrow> nat \<Rightarrow> nat" where
  \<comment> \<open>what \<open>_historyList->get(key)\<close> returns: the count recorded for the key, or the
     content of the uninitialised local when the key has no record\<close>
  "lruk_history_read c k uninit =
     (case lru_find (lruk_historyList c) k of Some n \<Rightarrow> n_value n | None \<Rightarrow> uninit)"

text \<open>The invariant of an LRU-K engine built by \<open>LRUKCache(cap, historyCapacity, k)\<close>: both
  lists hold every key once, and the three parameters are those of the constructor.\<close>

definition lruk_inv :: "int \<Rightarrow> int \<Rightarrow> int \<Rightarrow> ('k, 'v) LRUKCache \<Rightarrow> bool" where
  "lruk_inv cap historyCapacity k c \<longleftrightarrow>
     lru_inv (lruk_main c) \<and> lru_inv (lruk_historyList c)
     \<and> lru_capacity (lruk_main c) = cap \<and> lru_capacity (lruk_historyList c) = historyCapacity
     \<and> lruk_k c = k"

section \<open>ARC: the recency part (ArcLruPart.hpp)\<close>

text \<open>
  \<open>ArcNode\<close>: key, value and access counter (a \<open>size_t\<close>).  The main list of an
  \<open>ArcLruPart\<close> is read from \<open>_mainHead->_next\<close> (most recently used) to
  \<open>_mainTail->_prev\<close> (least recently used), the ghost list from \<open>_ghostHead->_next\<close>
  (latest ghost) to \<open>_ghostTail->_prev\<close> (oldest ghost).  \<open>_mainCache\<close> and
  \<open>_ghostCache\<close> are the indexes of the two lists.
\<close>

record ('k, 'v) ArcNode =
  a_key :: 'k
  a_value :: 'v
  a_accessCount :: nat

definition ArcNode_new :: "'k \<Rightarrow> 'v \<Rightarrow> ('k, 'v) ArcNode" where
  "ArcNode_new k v = \<lparr>a_key = k, a_value = v, a_accessCount = 1\<rparr>"

definition ArcNode_incrementAccessCount :: "('k, 'v) ArcNode \<Rightarrow> ('k, 'v) ArcNode" where
  "ArcNode_incrementAccessCount n = n\<lparr>a_accessCount := size_t_inc (a_accessCount n)\<rparr>"

fun arc_unlink :: "'k \<Rightarrow> ('k, 'v) ArcNode list \<Rightarrow> ('k, 'v) ArcNode list" where
  "arc_unlink k [] = []"
| "arc_unlink k (n # ns) = (if a_key n = k then ns else n # arc_unlink k ns)"

definition arc_find :: "('k, 'v) ArcNode list \<Rightarrow> 'k \<Rightarrow> ('k, 'v) ArcNode option" where
  "arc_find ns k = find (\<lambda>n. a_key n = k) ns"

record ('k, 'v) ArcLruPart =
  alru_capacity :: nat
  alru_ghostCapacity :: nat
  alru_transformThreshold :: nat
  alru_main :: "('k, 'v) ArcNode list"
  alru_ghost :: "('k, 'v) ArcNode list"

definition ArcLruPart_new :: "nat \<Rightarrow> nat \<Rightarrow> ('k, 'v) ArcLruPart" where
  "ArcLruPart_new cap transformThreshold =
     \<lparr>alru_capacity = cap, alru_ghostCapacity = cap,
      alru_transformThreshold = transformThreshold, alru_main = [], alru_ghost = []\<rparr>"

definition ArcLruPart_removeFromMain :: "('k, 'v) ArcLruPart \<Rightarrow> ('k, 'v) ArcNode \<Rightarrow> ('k, 'v) ArcLruPart" where
  "ArcLruPart_removeFromMain p node = p\<lparr>alru_main := arc_unlink (a_key node) (alru_main p)\<rparr>"

definition ArcLruPart_addToFront :: "('k, 'v) ArcLruPart \<Rightarrow> ('k, 'v) ArcNode \<Rightarrow> ('k, 'v) ArcLruPart" where
  "ArcLruPart_addToFront p node = p\<lparr>alru_main := node # alru_main p\<rparr>"

definition ArcLruPart_moveToFront :: "('k, 'v) ArcLruPart \<Rightarrow> ('k, 'v) ArcNode \<Rightarrow> ('k, 'v) ArcLruPart" where
  "ArcLruPart_moveToFront p node = ArcLruPart_addToFront (ArcLruPart_removeFromMain p node) node"

definition ArcLruPart_updateExistingNode ::
  "('k, 'v) ArcLruPart \<Rightarrow> ('k, 'v) ArcNode \<Rightarrow> 'v \<Rightarrow> bool \<times> ('k, 'v) ArcLruPart" where
  "ArcLruPart_updateExistingNode p node v = (True, ArcLruPart_moveToFront p (node\<lparr>a_value := v\<rparr>))"

definition ArcLruPart_updateNodeAccess ::
  "('k, 'v) ArcLruPart \<Rightarrow> ('k, 'v) ArcNode \<Rightarrow> bool \<times> ('k, 'v) ArcLruPart" where
  \<comment> \<open>the node is moved to the front and its counter incremented; the result tells
     whether the counter has reached the threshold\<close>
  "ArcLruPart_updateNodeAccess p node =
     (let node' = ArcNode_incrementAccessCount node
      in (alru_transformThreshold p \<le> a_accessCount node', ArcLruPart_moveToFront p node'))"

definition ArcLruPart_removeFromGhost :: "('k, 'v) ArcLruPart \<Rightarrow> ('k, 'v) ArcNode \<Rightarrow> ('k, 'v) ArcLruPart" where
  "ArcLruPart_removeFromGhost p node = p\<lparr>alru_ghost := arc_unlink (a_key node) (alru_ghost p)\<rparr>"

definition ArcLruPart_addToGhost :: "('k, 'v) ArcLruPart \<Rightarrow> ('k, 'v) ArcNode \<Rightarrow> ('k, 'v) ArcLruPart" where
  "ArcLruPart_addToGhost p node = p\<lparr>alru_ghost := node\<lparr>a_accessCount := 1\<rparr> # alru_ghost p\<rparr>"

definition ArcLruPart_removeOldestGhost :: "('k, 'v) ArcLruPart \<Rightarrow> ('k, 'v) ArcLruPart" where
  \<comment> \<open>\<open>_ghostTail->_prev\<close> is dropped unless it is \<open>_ghostHead\<close>\<close>
  "ArcLruPart_removeOldestGhost p =
     (if alru_ghost p = [] then p else p\<lparr>alru_ghost := butlast (alru_ghost p)\<rparr>)"

definition ArcLruPart_evictLeastRecent :: "('k, 'v) ArcLruPart \<Rightarrow> ('k, 'v) ArcLruPart" where
  \<comment> \<open>\<open>_mainTail->_prev\<close>, unless it is \<open>_mainHead\<close>, leaves the main list and enters
     the ghost list, which first drops its oldest entry when it is full\<close>
  "ArcLruPart_evictLeastRecent p =
     (if alru_main p = [] then p
      else
        let leastRecent = last (alru_main p);
            p1 = p\<lparr>alru_main := butlast (alru_main p)\<rparr>;
            p2 = (if alru_ghostCapacity p1 \<le> length (alru_ghost p1)
                  then ArcLruPart_removeOldestGhost p1 else p1)
        in ArcLruPart_addToGhost p2 leastRecent)"

definition ArcLruPart_addNewNode :: "('k, 'v) ArcLruPart \<Rightarrow> 'k \<Rightarrow> 'v \<Rightarrow> bool \<times> ('k, 'v) ArcLruPart" where
  "ArcLruPart_addNewNode p k v =
     (let p1 = (if alru_capacity p \<le> length (alru_main p) then ArcLruPart_evictLeastRecent p else p)
      in (True, ArcLruPart_addToFront p1 (ArcNode_new k v)))"

definition ArcLruPart_put :: "('k, 'v) ArcLruPart \<Rightarrow> 'k \<Rightarrow> 'v \<Rightarrow> bool \<times> ('k, 'v) ArcLruPart" where
  "ArcLruPart_put p k v =
     (if alru_capacity p = 0 then (False, p)
      else case arc_find (alru_main p) k of
             Some node \<Rightarrow> ArcLruPart_updateExistingNode p node v
           | None \<Rightarrow> ArcLruPart_addNewNode p k v)"

text \<open>
  \<open>bool get(Key key, Value& value, bool& shouldTransform)\<close>: the arguments \<open>out\<close> and
  \<open>st\<close> are the contents of the two out-parameters at the call; the result is the
  return value, their contents at the return, and the part.
\<close>

definition ArcLruPart_get ::
  "('k, 'v) ArcLruPart \<Rightarrow> 'k \<Rightarrow> 'v \<Rightarrow> bool \<Rightarrow> bool \<times> 'v \<times> bool \<times> ('k, 'v) ArcLruPart" where
  "ArcLruPart_get p k out st =
     (case arc_find (alru_main p) k of
        Some node \<Rightarrow>
          (case ArcLruPart_updateNodeAccess p node of
             (shouldTransform, p') \<Rightarrow> (True, a_value node, shouldTransform, p'))
      | None \<Rightarrow> (False, out, st, p))"

definition ArcLruPart_checkGhost :: "('k, 'v) ArcLruPart \<Rightarrow> 'k \<Rightarrow> bool \<times> ('k, 'v) ArcLruPart" where
  "ArcLruPart_checkGhost p k =
     (case arc_find (alru_ghost p) k of
        Some node \<Rightarrow> (True, ArcLruPart_removeFromGhost p node)
      | None \<Rightarrow> (False, p))"

definition ArcLruPart_increaseCapacity :: "('k, 'v) ArcLruPart \<Rightarrow> ('k, 'v) ArcLruPart" where
  "ArcLruPart_increaseCapacity p = p\<lparr>alru_capacity := size_t_inc (alru_capacity p)\<rparr>"

definition ArcLruPart_decreaseCapacity :: "('k, 'v) ArcLruPart \<Rightarrow> bool \<times> ('k, 'v) ArcLruPart" where
  "ArcLruPart_decreaseCapacity p =
     (if alru_capacity p \<le> 0 then (False, p\<lparr>alru_capacity := 0\<rparr>)
      else
        let p1 = (if length (alru_main p) = alru_capacity p then ArcLruPart_evictLeastRecent p else p)
        in (True, p1\<lparr>alru_capacity := alru_capacity p1 - 1\<rparr>))"

section \<open>ARC: the frequency part (ArcLfuPart.hpp)\<close>

text \<open>
  \<open>_freqMap\<close> is a \<open>std::map\<close> from a frequency to the \<open>std::list\<close> of the nodes with
  that access count: an association list of buckets, each read from \<open>front()\<close> to
  \<open>back()\<close>.  An entry with an empty list is a bucket that exists and is empty.
  \<open>_mainCache\<close> is the index of the nodes held by the buckets.  The ghost list is read
  from \<open>_ghostHead->_next\<close> (oldest ghost) to \<open>_ghostTail->_prev\<close> (latest ghost).
\<close>

record ('k, 'v) ArcLfuPart =
  alfu_capacity :: nat
  alfu_ghostCapacity :: nat
  alfu_transformThreshold :: nat
  alfu_minFreq :: nat
  alfu_freqMap :: "(nat \<times> ('k, 'v) ArcNode list) list"
  alfu_ghost :: "('k, 'v) ArcNode list"

definition ArcLfuPart_new :: "nat \<Rightarrow> nat \<Rightarrow> ('k, 'v) ArcLfuPart" where
  "ArcLfuPart_new cap transformThreshold =
     \<lparr>alfu_capacity = cap, alfu_ghostCapacity = cap,
      alfu_transformThreshold = transformThreshold, alfu_minFreq = 0,
      alfu_freqMap = [], alfu_ghost = []\<rparr>"

definition alfu_nodes :: "('k, 'v) ArcLfuPart \<Rightarrow> ('k, 'v) ArcNode list" where
  \<comment> \<open>the nodes indexed by \<open>_mainCache\<close>\<close>
  "alfu_nodes p = concat (map snd (alfu_freqMap p))"

definition freq_bucket :: "(nat \<times> 'a list) list \<Rightarrow> nat \<Rightarrow> 'a list" where
  \<comment> \<open>\<open>_freqMap[f]\<close>, which is a fresh empty list when the map has no entry for \<open>f\<close>\<close>
  "freq_bucket fm f = (case map_of fm f of Some b \<Rightarrow> b | None \<Rightarrow> [])"

definition freq_begin :: "(nat \<times> 'a list) list \<Rightarrow> nat" where
  \<comment> \<open>\<open>_freqMap.begin()->first\<close> of a non-empty map: its least key\<close>
  "freq_begin fm = fold min (map fst (tl fm)) (fst (hd fm))"

definition ArcLfuPart_updateNodeFrequency :: "('k, 'v) ArcLfuPart \<Rightarrow> ('k, 'v) ArcNode \<Rightarrow> ('k, 'v) ArcLfuPart" where
  "ArcLfuPart_updateNodeFrequency p node =
     (let oldFreq = a_accessCount node;
          node' = ArcNode_incrementAccessCount node;
          newFreq = a_accessCount node';
          oldList = filter (\<lambda>n. a_key n \<noteq> a_key node) (freq_bucket (alfu_freqMap p) oldFreq);
          fm1 = (if oldList = [] then AList.delete oldFreq (alfu_freqMap p)
                 else AList.update oldFreq oldList (alfu_freqMap p));
          minFreq1 = (if oldList = [] \<and> oldFreq = alfu_minFreq p then newFreq else alfu_minFreq p);
          fm2 = AList.update newFreq (freq_bucket fm1 newFreq @ [node']) fm1
      in p\<lparr>alfu_minFreq := minFreq1, alfu_freqMap := fm2\<rparr>)"

definition ArcLfuPart_updateExistingNode ::
  "('k, 'v) ArcLfuPart \<Rightarrow> ('k, 'v) ArcNode \<Rightarrow> 'v \<Rightarrow> bool \<times> ('k, 'v) ArcLfuPart" where
  "ArcLfuPart_updateExistingNode p node v =
     (True, ArcLfuPart_updateNodeFrequency p (node\<lparr>a_value := v\<rparr>))"

definition ArcLfuPart_addToGhost :: "('k, 'v) ArcLfuPart \<Rightarrow> ('k, 'v) ArcNode \<Rightarrow> ('k, 'v) ArcLfuPart" where
  "ArcLfuPart_addToGhost p node = p\<lparr>alfu_ghost := alfu_ghost p @ [node]\<rparr>"

definition ArcLfuPart_removeFromGhost :: "('k, 'v) ArcLfuPart \<Rightarrow> ('k, 'v) ArcNode \<Rightarrow> ('k, 'v) ArcLfuPart" where
  "ArcLfuPart_removeFromGhost p node = p\<lparr>alfu_ghost := arc_unlink (a_key node) (alfu_ghost p)\<rparr>"

definition ArcLfuPart_removeOldestGhost :: "('k, 'v) ArcLfuPart \<Rightarrow> ('k, 'v) ArcLfuPart" where
  \<comment> \<open>\<open>_ghostHead->_next\<close> is dropped unless it is \<open>_ghostTail\<close>\<close>
  "ArcLfuPart_removeOldestGhost p =
     (case alfu_ghost p of [] \<Rightarrow> p | oldestGhost # rest \<Rightarrow> p\<lparr>alfu_ghost := rest\<rparr>)"

definition ArcLfuPart_evictLeastFrequent :: "('k, 'v) ArcLfuPart \<Rightarrow> ('k, 'v) ArcLfuPart" where
  "ArcLfuPart_evictLeastFrequent p =
     (if alfu_freqMap p = [] then p
      else
        let fm0 = (if map_of (alfu_freqMap p) (alfu_minFreq p) = None
                   then alfu_freqMap p @ [(alfu_minFreq p, [])] else alfu_freqMap p)
        in case freq_bucket fm0 (alfu_minFreq p) of
             [] \<Rightarrow> p\<lparr>alfu_freqMap := fm0\<rparr>
           | leastNode # rest \<Rightarrow>
               (let p1 = (if rest = []
                          then (let fm1 = AList.delete (alfu_minFreq p) fm0
                                in p\<lparr>alfu_freqMap := fm1,
                                     alfu_minFreq := (if fm1 \<noteq> [] then freq_begin fm1 else alfu_minFreq p)\<rparr>)
                          else p\<lparr>alfu_freqMap := AList.update (alfu_minFreq p) rest fm0\<rparr>);
                    p2 = (if alfu_ghostCapacity p1 \<le> length (alfu_ghost p1)
                          then ArcLfuPart_removeOldestGhost p1 else p1)
                in ArcLfuPart_addToGhost p2 leastNode))"

definition ArcLfuPart_addNewNode :: "('k, 'v) ArcLfuPart \<Rightarrow> 'k \<Rightarrow> 'v \<Rightarrow> bool \<times> ('k, 'v) ArcLfuPart" where
  "ArcLfuPart_addNewNode p k v =
     (let p1 = (if alfu_capacity p \<le> length (alfu_nodes p) then ArcLfuPart_evictLeastFrequent p else p);
          fm1 = (if map_of (alfu_freqMap p1) 1 = None then alfu_freqMap p1 @ [(1, [])]
                 else alfu_freqMap p1);
          fm2 = AList.update 1 (ArcNode_new k v # freq_bucket fm1 1) fm1
      in (True, p1\<lparr>alfu_freqMap := fm2, alfu_minFreq := 1\<rparr>))"

definition ArcLfuPart_put :: "('k, 'v) ArcLfuPart \<Rightarrow> 'k \<Rightarrow> 'v \<Rightarrow> bool \<times> ('k, 'v) ArcLfuPart" where
  "ArcLfuPart_put p k v =
     (if alfu_capacity p = 0 then (False, p)
      else case arc_find (alfu_nodes p) k of
             Some node \<Rightarrow> ArcLfuPart_updateExistingNode p node v
           | None \<Rightarrow> ArcLfuPart_addNewNode p k v)"

definition ArcLfuPart_get :: "('k, 'v) ArcLfuPart \<Rightarrow> 'k \<Rightarrow> 'v \<Rightarrow> bool \<times> 'v \<times> ('k, 'v) ArcLfuPart" where
  "ArcLfuPart_get p k out =
     (case arc_find (alfu_nodes p) k of
        Some node \<Rightarrow> (True, a_value node, ArcLfuPart_updateNodeFrequency p node)
      | None \<Rightarrow> (False, out, p))"

definition ArcLfuPart_contain :: "('k, 'v) ArcLfuPart \<Rightarrow> 'k \<Rightarrow> bool" where
  "ArcLfuPart_contain p k \<longleftrightarrow> arc_find (alfu_nodes p) k \<noteq> None"

definition ArcLfuPart_checkGhost :: "('k, 'v) ArcLfuPart \<Rightarrow> 'k \<Rightarrow> bool \<times> ('k, 'v) ArcLfuPart" where
  "ArcLfuPart_checkGhost p k =
     (case arc_find (alfu_ghost p) k of
        Some node \<Rightarrow> (True, ArcLfuPart_removeFromGhost p node)
      | None \<Rightarrow> (False, p))"

definition ArcLfuPart_increaseCapacity :: "('k, 'v) ArcLfuPart \<Rightarrow> ('k, 'v) ArcLfuPart" where
  "ArcLfuPart_increaseCapacity p = p\<lparr>alfu_capacity := size_t_inc (alfu_capacity p)\<rparr>"

definition ArcLfuPart_decreaseCapacity :: "('k, 'v) ArcLfuPart \<Rightarrow> bool \<times> ('k, 'v) ArcLfuPart" where
  "ArcLfuPart_decreaseCapacity p =
     (if alfu_capacity p \<le> 0 then (False, p\<lparr>alfu_capacity := 0\<rparr>)
      else
        let p1 = (if length (alfu_nodes p) = alfu_capacity p then ArcLfuPart_evictLeastFrequent p else p)
        in (True, p1\<lparr>alfu_capacity := alfu_capacity p1 - 1\<rparr>))"

text \<open>Consistency of the index of the frequency part.\<close>

definition alfu_wf :: "('k, 'v) ArcLfuPart \<Rightarrow> bool" where
  \<comment> \<open>\<open>_freqMap\<close> has one entry per frequency, every node is in the list of its access
     count, and no key is held twice\<close>
  "alfu_wf p \<longleftrightarrow>
     distinct (map fst (alfu_freqMap p))
     \<and> (\<forall>(f, b) \<in> set (alfu_freqMap p). \<forall>n \<in> set b. a_accessCount n = f)
     \<and> distinct (map a_key (alfu_nodes p))"

section \<open>ARC: the composite (ArcCache.hpp)\<close>

record ('k, 'v) ArcCache =
  arc_capacity :: nat
  arc_transformThreshold :: nat
  arc_lruPart :: "('k, 'v) ArcLruPart"
  arc_lfuPart :: "('k, 'v) ArcLfuPart"

definition ArcCache_new :: "nat \<Rightarrow> nat \<Rightarrow> ('k, 'v) ArcCache" where
  "ArcCache_new cap transformThreshold =
     \<lparr>arc_capacity = cap, arc_transformThreshold = transformThreshold,
      arc_lruPart = ArcLruPart_new cap transformThreshold,
      arc_lfuPart = ArcLfuPart_new cap transformThreshold\<rparr>"

definition ArcCache_checkGhostCaches :: "('k, 'v) ArcCache \<Rightarrow> 'k \<Rightarrow> bool \<times> ('k, 'v) ArcCache" where
  "ArcCache_checkGhostCaches c k =
     (case ArcLruPart_checkGhost (arc_lruPart c) k of
        (True, lru1) \<Rightarrow>
          (case ArcLfuPart_decreaseCapacity (arc_lfuPart c) of
             (True, lfu1) \<Rightarrow>
               (True, c\<lparr>arc_lruPart := ArcLruPart_increaseCapacity lru1, arc_lfuPart := lfu1\<rparr>)
           | (False, lfu1) \<Rightarrow> (True, c\<lparr>arc_lruPart := lru1, arc_lfuPart := lfu1\<rparr>))
      | (False, lru1) \<Rightarrow>
          (case ArcLfuPart_checkGhost (arc_lfuPart c) k of
             (True, lfu1) \<Rightarrow>
               (case ArcLruPart_decreaseCapacity lru1 of
                  (True, lru2) \<Rightarrow>
                    (True, c\<lparr>arc_lruPart := lru2, arc_lfuPart := ArcLfuPart_increaseCapacity lfu1\<rparr>)
                | (False, lru2) \<Rightarrow> (True, c\<lparr>arc_lruPart := lru2, arc_lfuPart := lfu1\<rparr>))
           | (False, lfu1) \<Rightarrow> (False, c)))"

definition ArcCache_put :: "('k, 'v) ArcCache \<Rightarrow> 'k \<Rightarrow> 'v \<Rightarrow> ('k, 'v) ArcCache" where
  "ArcCache_put c k v =
     (let c1 = snd (ArcCache_checkGhostCaches c k);
          c2 = c1\<lparr>arc_lruPart := snd (ArcLruPart_put (arc_lruPart c1) k v)\<rparr>;
          inLfu = ArcLfuPart_contain (arc_lfuPart c2) k
      in if inLfu then c2\<lparr>arc_lfuPart := snd (ArcLfuPart_put (arc_lfuPart c2) k v)\<rparr> else c2)"

definition ArcCache_get :: "('k, 'v) ArcCache \<Rightarrow> 'k \<Rightarrow> 'v \<Rightarrow> bool \<times> 'v \<times> ('k, 'v) ArcCache" where
  "ArcCache_get c k out =
     (let c1 = snd (ArcCache_checkGhostCaches c k)
      in case ArcLruPart_get (arc_lruPart c1) k out False of
           (True, v, shouldTransform, lru1) \<Rightarrow>
             (True, v,
              c1\<lparr>arc_lruPart := lru1,
                 arc_lfuPart := (if shouldTransform then snd (ArcLfuPart_put (arc_lfuPart c1) k v)
                                 else arc_lfuPart c1)\<rparr>)
         | (False, v, shouldTransform, lru1) \<Rightarrow>
             (case ArcLfuPart_get (arc_lfuPart c1) k v of
                (hit, v', lfu1) \<Rightarrow> (hit, v', c1\<lparr>arc_lruPart := lru1, arc_lfuPart := lfu1\<rparr>)))"

definition ArcCache_get_value :: "('k, 'v) ArcCache \<Rightarrow> 'k \<Rightarrow> 'v \<Rightarrow> 'v \<times> ('k, 'v) ArcCache" where
  \<comment> \<open>\<open>Value get(Key key)\<close>; \<open>dflt\<close> is the value-initialised \<open>Value value{}\<close>\<close>
  "ArcCache_get_value c k dflt = (case ArcCache_get c k dflt of (hit, v, c') \<Rightarrow> (v, c'))"

inductive arc_reach :: "nat \<Rightarrow> nat \<Rightarrow> ('k, 'v) ArcCache \<Rightarrow> bool"
  for cap :: nat and transformThreshold :: nat where
  arc_reach_new: "arc_reach cap transformThreshold (ArcCache_new cap transformThreshold)"
| arc_reach_put: "arc_reach cap transformThreshold c \<Longrightarrow> arc_reach cap transformThreshold (ArcCache_put c k v)"
| arc_reach_get: "arc_reach cap transformThreshold c \<Longrightarrow>
     arc_reach cap transformThreshold (snd (snd (ArcCache_get c k out)))"

section \<open>LFU engine (LFUCache.hpp)\<close>

text \<open>
  A \<open>Node\<close> carries \<open>freq\<close>, \<open>key\<close> and \<open>value\<close>.  \<open>_nodeMap\<close> is an association list
  from the key to the node's \<open>freq\<close> and \<open>value\<close>; its order stands for the iteration
  order of the \<open>unordered_map\<close>, which the source leaves to the library: the model
  keeps the entries in the order of their insertion, and the library may visit them
  in another one.  Only the ageing pass iterates over the map, and the order of its
  visits decides the order of the keys inside the lists it rebuilds, nothing else.
  \<open>_freqToFreqList\<close> maps a frequency to its \<open>FreqList\<close>, the list of the keys of the
  nodes linked between its sentinels, read from \<open>_head->next\<close> (oldest) to
  \<open>_tail->pre\<close> (latest).  The sentinels of every \<open>FreqList\<close> are nodes built by
  \<open>Node()\<close>: their \<open>freq\<close> is 1, and their \<open>key\<close> is default-initialised, that is
  \<open>Key()\<close> for a class type and left uninitialised for a scalar type.
  \<open>lfu_sentinelKey\<close>, an argument of the constructor of the model, is the content of
  that field, whatever it is, taken to be the same in every sentinel.  It is read
  only when \<open>kickOut\<close> finds the list of \<open>_minFreq\<close> empty.

  \<open>_freqToFreqList[f]\<close> on a frequency without entry yields a null pointer, and the
  source dereferences the result at once: that is the result \<open>None\<close> of the operations
  below.  \<open>None\<close> is also the result when a linked key has no entry in \<open>_nodeMap\<close>:
  no state that satisfies \<open>lfu_wf\<close> below is of that kind.
\<close>

record 'v LFUNode =
  f_freq :: int
  f_value :: 'v

record ('k, 'v) LFUCache =
  lfu_capacity :: int
  lfu_minFreq :: int
  lfu_maxAverageNum :: int
  lfu_curAverageNum :: int
  lfu_curTotalNum :: int
  lfu_nodeMap :: "('k \<times> 'v LFUNode) list"
  lfu_freqToFreqList :: "(int \<times> 'k list) list"
  lfu_sentinelKey :: 'k

definition LFUCache_new :: "'k \<Rightarrow> int \<Rightarrow> int \<Rightarrow> ('k, 'v) LFUCache" where
  "LFUCache_new sentinelKey cap maxAverageNum =
     \<lparr>lfu_capacity = cap, lfu_minFreq = INT_MAX, lfu_maxAverageNum = maxAverageNum,
      lfu_curAverageNum = 0, lfu_curTotalNum = 0, lfu_nodeMap = [],
      lfu_freqToFreqList = [], lfu_sentinelKey = sentinelKey\<rparr>"

definition lfu_bucket :: "(int \<times> 'k list) list \<Rightarrow> int \<Rightarrow> 'k list" where
  "lfu_bucket fl f = (case map_of fl f of Some b \<Rightarrow> b | None \<Rightarrow> [])"

definition lfu_unlink :: "'k \<Rightarrow> (int \<times> 'k list) list \<Rightarrow> (int \<times> 'k list) list" where
  \<comment> \<open>\<open>FreqList::removeNode\<close> works on the links of the node itself: the node leaves
     the list it is linked in\<close>
  "lfu_unlink k fl = map (\<lambda>(f, b). (f, removeAll k b)) fl"

definition lfu_average :: "int \<Rightarrow> nat \<Rightarrow> int" where
  \<comment> \<open>\<open>_nodeMap.empty() ? 0 : _curTotalNum / _nodeMap.size()\<close>, an unsigned division
     whose result is stored into an \<open>int\<close>\<close>
  "lfu_average tot n = (if n = 0 then 0 else int_of_size_t (size_t_of_int tot div n))"

definition LFUCache_removeFromFreqList ::
  "('k, 'v) LFUCache \<Rightarrow> 'k \<Rightarrow> 'v LFUNode \<Rightarrow> ('k, 'v) LFUCache option" where
  "LFUCache_removeFromFreqList s k node =
     (case map_of (lfu_freqToFreqList s) (f_freq node) of
        None \<Rightarrow> None
      | Some b \<Rightarrow> Some (s\<lparr>lfu_freqToFreqList := lfu_unlink k (lfu_freqToFreqList s)\<rparr>))"

definition LFUCache_addToFreqList ::
  "('k, 'v) LFUCache \<Rightarrow> 'k \<Rightarrow> 'v LFUNode \<Rightarrow> ('k, 'v) LFUCache" where
  \<comment> \<open>the list of the frequency is created when the map has none, and the node is
     linked before its \<open>_tail\<close>\<close>
  "LFUCache_addToFreqList s k node =
     s\<lparr>lfu_freqToFreqList :=
         AList.update (f_freq node) (lfu_bucket (lfu_freqToFreqList s) (f_freq node) @ [k])
           (lfu_freqToFreqList s)\<rparr>"

definition LFUCache_updateMinFreq :: "('k, 'v) LFUCache \<Rightarrow> ('k, 'v) LFUCache" where
  "LFUCache_updateMinFreq s =
     (let m = fold (\<lambda>(f, b) m. if b \<noteq> [] then min m f else m) (lfu_freqToFreqList s) INT_MAX
      in s\<lparr>lfu_minFreq := (if m = INT_MAX then 1 else m)\<rparr>)"

fun lfu_age_nodes :: "('k \<times> 'v LFUNode) list \<Rightarrow> ('k, 'v) LFUCache \<Rightarrow> ('k, 'v) LFUCache option" where
  "lfu_age_nodes [] s = Some s"
| "lfu_age_nodes ((k, node) # rest) s =
     (case LFUCache_removeFromFreqList s k node of
        None \<Rightarrow> None
      | Some s1 \<Rightarrow>
          (let f1 = f_freq node - lfu_maxAverageNum s sdiv 2;
               node' = node\<lparr>f_freq := (if f1 < 1 then 1 else f1)\<rparr>;
               s2 = s1\<lparr>lfu_nodeMap := AList.update k node' (lfu_nodeMap s1)\<rparr>
           in lfu_age_nodes rest (LFUCache_addToFreqList s2 k node')))"

definition LFUCache_handleOverMaxAverageNum :: "('k, 'v) LFUCache \<Rightarrow> ('k, 'v) LFUCache option" where
  \<comment> \<open>the loop visits every entry of \<open>_nodeMap\<close> once; no entry holds a null pointer,
     so \<open>cnt\<close> is the number of entries\<close>
  "LFUCache_handleOverMaxAverageNum s =
     (if lfu_nodeMap s = [] then Some s
      else case lfu_age_nodes (lfu_nodeMap s) s of
             None \<Rightarrow> None
           | Some s1 \<Rightarrow>
               (let cnt = int (length (lfu_nodeMap s));
                    tot = lfu_curTotalNum s1 - (lfu_maxAverageNum s1 sdiv 2) * cnt
                in Some (LFUCache_updateMinFreq
                     (s1\<lparr>lfu_curTotalNum := tot, lfu_curAverageNum := tot sdiv cnt\<rparr>))))"

definition LFUCache_addFreqNum :: "('k, 'v) LFUCache \<Rightarrow> ('k, 'v) LFUCache option" where
  "LFUCache_addFreqNum s =
     (let tot = lfu_curTotalNum s + 1;
          s1 = s\<lparr>lfu_curTotalNum := tot,
                 lfu_curAverageNum := lfu_average tot (length (lfu_nodeMap s))\<rparr>
      in if lfu_maxAverageNum s1 < lfu_curAverageNum s1
         then LFUCache_handleOverMaxAverageNum s1 else Some s1)"

definition LFUCache_decreaseFreqNum :: "('k, 'v) LFUCache \<Rightarrow> int \<Rightarrow> ('k, 'v) LFUCache" where
  "LFUCache_decreaseFreqNum s num =
     (let tot = lfu_curTotalNum s - num
      in s\<lparr>lfu_curTotalNum := tot,
           lfu_curAverageNum := lfu_average tot (length (lfu_nodeMap s))\<rparr>)"

definition LFUCache_kickOut :: "('k, 'v) LFUCache \<Rightarrow> ('k, 'v) LFUCache option" where
  \<comment> \<open>\<open>getFirstNode()\<close> of an empty list is its \<open>_tail\<close> sentinel: then the entry of
     \<open>Key()\<close> is erased from \<open>_nodeMap\<close>, \<open>removeNode\<close> leaves the sentinel in place
     (after the list of frequency 1 has been dereferenced), and the total drops by 1\<close>
  "LFUCache_kickOut s =
     (case map_of (lfu_freqToFreqList s) (lfu_minFreq s) of
        None \<Rightarrow> None
      | Some [] \<Rightarrow>
          (let s1 = s\<lparr>lfu_nodeMap := AList.delete (lfu_sentinelKey s) (lfu_nodeMap s)\<rparr>
           in case map_of (lfu_freqToFreqList s1) 1 of
                None \<Rightarrow> None
              | Some b \<Rightarrow> Some (LFUCache_decreaseFreqNum s1 1))
      | Some (k # rest) \<Rightarrow>
          (case map_of (lfu_nodeMap s) k of
             None \<Rightarrow> None
           | Some node \<Rightarrow>
               (let decreaseNum = f_freq node;
                    s1 = s\<lparr>lfu_nodeMap := AList.delete k (lfu_nodeMap s)\<rparr>
                in case LFUCache_removeFromFreqList s1 k node of
                     None \<Rightarrow> None
                   | Some s2 \<Rightarrow> Some (LFUCache_decreaseFreqNum s2 decreaseNum))))"

definition LFUCache_putInternal :: "('k, 'v) LFUCache \<Rightarrow> 'k \<Rightarrow> 'v \<Rightarrow> ('k, 'v) LFUCache option" where
  "LFUCache_putInternal s k v =
     (case (if length (lfu_nodeMap s) = size_t_of_int (lfu_capacity s)
            then LFUCache_kickOut s else Some s) of
        None \<Rightarrow> None
      | Some s1 \<Rightarrow>
          (let node = \<lparr>f_freq = 1, f_value = v\<rparr>;
               s2 = s1\<lparr>lfu_nodeMap := AList.update k node (lfu_nodeMap s1)\<rparr>;
               s3 = LFUCache_addToFreqList s2 k node
           in case LFUCache_addFreqNum s3 of
                None \<Rightarrow> None
              | Some s4 \<Rightarrow> Some (s4\<lparr>lfu_minFreq := 1\<rparr>)))"

definition LFUCache_getInternal ::
  "('k, 'v) LFUCache \<Rightarrow> 'k \<Rightarrow> 'v LFUNode \<Rightarrow> ('v \<times> ('k, 'v) LFUCache) option" where
  \<comment> \<open>\<open>node\<close> is the node of key \<open>k\<close>; the first component of the result is what the
     out-parameter \<open>value\<close> receives\<close>
  "LFUCache_getInternal s k node =
     (case LFUCache_removeFromFreqList s k node of
        None \<Rightarrow> None
      | Some s1 \<Rightarrow>
          (let node' = node\<lparr>f_freq := f_freq node + 1\<rparr>;
               s2 = s1\<lparr>lfu_nodeMap := AList.update k node' (lfu_nodeMap s1)\<rparr>;
               s3 = LFUCache_addToFreqList s2 k node'
           in case (if lfu_minFreq s3 = f_freq node' - 1
                    then (case map_of (lfu_freqToFreqList s3) (f_freq node' - 1) of
                            None \<Rightarrow> None
                          | Some b \<Rightarrow> Some (if b = [] then s3\<lparr>lfu_minFreq := lfu_minFreq s3 + 1\<rparr> else s3))
                    else Some s3) of
                None \<Rightarrow> None
              | Some s4 \<Rightarrow>
                  (case LFUCache_addFreqNum s4 of
                     None \<Rightarrow> None
                   | Some s5 \<Rightarrow> Some (f_value node, s5))))"

definition LFUCache_put :: "('k, 'v) LFUCache \<Rightarrow> 'k \<Rightarrow> 'v \<Rightarrow> ('k, 'v) LFUCache option" where
  "LFUCache_put s k v =
     (if lfu_capacity s = 0 then Some s
      else case map_of (lfu_nodeMap s) k of
             Some node \<Rightarrow>
               (let node1 = node\<lparr>f_value := v\<rparr>;
                    s1 = s\<lparr>lfu_nodeMap := AList.update k node1 (lfu_nodeMap s)\<rparr>
                in map_option snd (LFUCache_getInternal s1 k node1))
           | None \<Rightarrow> LFUCache_putInternal s k v)"

definition LFUCache_get ::
  "('k, 'v) LFUCache \<Rightarrow> 'k \<Rightarrow> 'v \<Rightarrow> (bool \<times> 'v \<times> ('k, 'v) LFUCache) option" where
  "LFUCache_get s k out =
     (case map_of (lfu_nodeMap s) k of
        Some node \<Rightarrow> map_option (\<lambda>(v, s'). (True, v, s')) (LFUCache_getInternal s k node)
      | None \<Rightarrow> Some (False, out, s))"

definition LFUCache_get_value :: "('k, 'v) LFUCache \<Rightarrow> 'k \<Rightarrow> 'v \<Rightarrow> ('v \<times> ('k, 'v) LFUCache) option" where
  \<comment> \<open>\<open>Value get(Key key)\<close>; \<open>dflt\<close> is the value-initialised \<open>Value value{}\<close>\<close>
  "LFUCache_get_value s k dflt = map_option (\<lambda>(hit, v, s'). (v, s')) (LFUCache_get s k dflt)"

definition LFUCache_purge :: "('k, 'v) LFUCache \<Rightarrow> ('k, 'v) LFUCache" where
  "LFUCache_purge s = s\<lparr>lfu_nodeMap := [], lfu_freqToFreqList := []\<rparr>"

definition lfu_in_range :: "('k, 'v) LFUCache \<Rightarrow> bool" where
  \<comment> \<open>every frequency is below \<open>INT_MAX\<close>, the value \<open>updateMinFreq\<close> starts from\<close>
  "lfu_in_range s \<longleftrightarrow> (\<forall>(k, n) \<in> set (lfu_nodeMap s). f_freq n < INT_MAX)"

text \<open>
  States of an \<open>LFUCache\<close> driven through its public operations, as long as the
  operations return and no frequency reaches \<open>INT_MAX\<close>.
\<close>

inductive lfu_reach :: "'k \<Rightarrow> int \<Rightarrow> int \<Rightarrow> ('k, 'v) LFUCache \<Rightarrow> bool"
  for sentinelKey :: 'k and cap :: int and maxAverageNum :: int where
  lfu_reach_new: "lfu_reach sentinelKey cap maxAverageNum (LFUCache_new sentinelKey cap maxAverageNum)"
| lfu_reach_put: "lfu_reach sentinelKey cap maxAverageNum s \<Longrightarrow> LFUCache_put s k v = Some s'
     \<Longrightarrow> lfu_in_range s' \<Longrightarrow> lfu_reach sentinelKey cap maxAverageNum s'"
| lfu_reach_get: "lfu_reach sentinelKey cap maxAverageNum s \<Longrightarrow> LFUCache_get s k out = Some (hit, v, s')
     \<Longrightarrow> lfu_in_range s' \<Longrightarrow> lfu_reach sentinelKey cap maxAverageNum s'"
| lfu_reach_purge: "lfu_reach sentinelKey cap maxAverageNum s
     \<Longrightarrow> lfu_reach sentinelKey cap maxAverageNum (LFUCache_purge s)"

definition lfu_wf :: "('k, 'v) LFUCache \<Rightarrow> bool" where
  \<comment> \<open>the index and the frequency lists agree: keys are unique, every indexed node is
     linked exactly once, in the list of its frequency, and every linked key is indexed\<close>
  "lfu_wf s \<longleftrightarrow>
     distinct (map fst (lfu_nodeMap s)) \<and> distinct (map fst (lfu_freqToFreqList s))
     \<and> (\<forall>k n. map_of (lfu_nodeMap s) k = Some n \<longrightarrow>
            k \<in> set (lfu_bucket (lfu_freqToFreqList s) (f_freq n)))
     \<and> (\<forall>f b k. map_of (lfu_freqToFreqList s) f = Some b \<longrightarrow> k \<in> set b \<longrightarrow>
            (\<exists>n. map_of (lfu_nodeMap s) k = Some n \<and> f_freq n = f))
     \<and> (\<forall>f b. map_of (lfu_freqToFreqList s) f = Some b \<longrightarrow> distinct b)"

definition lfu_aged :: "int \<Rightarrow> 'v LFUNode \<Rightarrow> 'v LFUNode" where
  \<comment> \<open>the node after the ageing pass: \<open>max(1, freq - maxAverageNum / 2)\<close>, same value\<close>
  "lfu_aged maxAverageNum n = n\<lparr>f_freq := max 1 (f_freq n - maxAverageNum sdiv 2)\<rparr>"

definition lfu_least_nonempty :: "('k, 'v) LFUCache \<Rightarrow> int option" where
  \<comment> \<open>the smallest frequency whose list is non-empty, if there is one\<close>
  "lfu_least_nonempty s =
     (case map fst (filter (\<lambda>(f, b). b \<noteq> []) (lfu_freqToFreqList s)) of
        [] \<Rightarrow> None
      | f # fs \<Rightarrow> Some (fold min fs f))"

text \<open>Three runs of an \<open>ArcCache<nat, string>\<close>, used as concrete inputs below.\<close>

definition arc_run_b1_hit :: "(nat, string) ArcCache" where
  \<comment> \<open>capacity 2: 1 and 2 are evicted into B1, then \<open>get(1)\<close> hits B1\<close>
  "arc_run_b1_hit =
     snd (snd (ArcCache_get (ArcCache_put (ArcCache_put (ArcCache_put (ArcCache_put
       (ArcCache_new 2 2) 1 ''a'') 2 ''b'') 3 ''c'') 4 ''d'') 1 ''''))"

definition arc_run_lfu_empty :: "(nat, string) ArcCache" where
  \<comment> \<open>capacity 1: a B1 hit has taken the whole capacity of T2, and 2 is in B1\<close>
  "arc_run_lfu_empty =
     ArcCache_put (ArcCache_put (ArcCache_put (ArcCache_put
       (ArcCache_new 1 2) 1 ''a'') 2 ''b'') 1 ''c'') 3 ''d''"

definition arc_run_lru_empty :: "(nat, string) ArcCache" where
  \<comment> \<open>capacity 2: two B2 hits have taken the whole capacity of T1, and 5 is in B2 only\<close>
  "arc_run_lru_empty =
     ArcCache_put (ArcCache_put (ArcCache_put
     (snd (snd (ArcCache_get (ArcCache_put
     (snd (snd (ArcCache_get (ArcCache_put
     (snd (snd (ArcCache_get
     (snd (snd (ArcCache_get (ArcCache_put
     (snd (snd (ArcCache_get (ArcCache_put
     (snd (snd (ArcCache_get (ArcCache_put
     (snd (snd (ArcCache_get (ArcCache_put (ArcCache_new 2 2) 1 ''a'') 1 '''')))
       2 ''b'') 2 '''')))
       3 ''c'') 3 '''')))
       4 ''d'') 4 '''')))
       3 '''')))
       5 ''e'') 5 '''')))
       6 ''f'') 6 '''')))
       7 ''g'') 8 ''h'') 2 ''b''"

definition lfu_inv :: "('k, 'v) LFUCache \<Rightarrow> bool" where
  \<comment> \<open>what holds between two public operations: the structure, frequencies from 1
     up and below \<open>INT_MAX\<close>, \<open>_minFreq\<close> on the least non-empty list of a non-empty
     cache, and no list at all in an empty cache\<close>
  "lfu_inv s \<longleftrightarrow>
     lfu_wf s \<and> lfu_in_range s
     \<and> (\<forall>k n. map_of (lfu_nodeMap s) k = Some n \<longrightarrow> 1 \<le> f_freq n)
     \<and> (lfu_nodeMap s \<noteq> [] \<longrightarrow> lfu_least_nonempty s = Some (lfu_minFreq s))
     \<and> (lfu_nodeMap s = [] \<longrightarrow> lfu_freqToFreqList s = [])"

text \<open>Three states of an \<open>LFUCache<nat, string>\<close>, used as concrete inputs below.\<close>

definition lfu_state_one :: "(nat, string) LFUCache" where
  \<comment> \<open>capacity 2, maxAverageNum 10, after \<open>put(1, "a")\<close>\<close>
  "lfu_state_one =
     \<lparr>lfu_capacity = 2, lfu_minFreq = 1, lfu_maxAverageNum = 10, lfu_curAverageNum = 1,
      lfu_curTotalNum = 1, lfu_nodeMap = [(1, \<lparr>f_freq = 1, f_value = ''a''\<rparr>)],
      lfu_freqToFreqList = [(1, [1])], lfu_sentinelKey = 0\<rparr>"

definition lfu_state_full :: "(nat, string) LFUCache" where
  \<comment> \<open>the same cache after \<open>put(2, "b")\<close>: it is full\<close>
  "lfu_state_full =
     \<lparr>lfu_capacity = 2, lfu_minFreq = 1, lfu_maxAverageNum = 10, lfu_curAverageNum = 1,
      lfu_curTotalNum = 2,
      lfu_nodeMap = [(1, \<lparr>f_freq = 1, f_value = ''a''\<rparr>), (2, \<lparr>f_freq = 1, f_value = ''b''\<rparr>)],
      lfu_freqToFreqList = [(1, [1, 2])], lfu_sentinelKey = 0\<rparr>"

definition lfu_state_negative :: "(nat, string) LFUCache" where
  \<comment> \<open>capacity 1, maxAverageNum -2, after \<open>put(1, "a")\<close>: the ageing pass has raised the
     frequency of the new node to 2, and \<open>putInternal\<close> has set \<open>_minFreq\<close> to 1\<close>
  "lfu_state_negative =
     \<lparr>lfu_capacity = 1, lfu_minFreq = 1, lfu_maxAverageNum = - 2, lfu_curAverageNum = 2,
      lfu_curTotalNum = 2, lfu_nodeMap = [(1, \<lparr>f_freq = 2, f_value = ''a''\<rparr>)],
      lfu_freqToFreqList = [(1, []), (2, [1])], lfu_sentinelKey = 0\<rparr>"

definition lfu_state_hot :: "(nat, string) LFUCache" where
  \<comment> \<open>maxAverageNum 2, inside an access, before \<open>addFreqNum\<close>: the total is 5 and
     becomes 6, so that the average of the two entries becomes 3\<close>
  "lfu_state_hot =
     \<lparr>lfu_capacity = 2, lfu_minFreq = 1, lfu_maxAverageNum = 2, lfu_curAverageNum = 2,
      lfu_curTotalNum = 5,
      lfu_nodeMap = [(1, \<lparr>f_freq = 3, f_value = ''a''\<rparr>), (2, \<lparr>f_freq = 1, f_value = ''b''\<rparr>)],
      lfu_freqToFreqList = [(1, [2]), (2, []), (3, [1])], lfu_sentinelKey = 0\<rparr>"

section \<open>Properties of the LRU engine\<close>

lemma lru_unlink_keys: "map n_key (lru_unlink k ns) = remove1 k (map n_key ns)"
  by (induction ns) auto

lemma lru_unlink_filter:
  "distinct (map n_key ns) \<Longrightarrow> lru_unlink k ns = filter (\<lambda>n. n_key n \<noteq> k) ns"
proof (induction ns)
  case Nil
  show ?case by simp
next
  case (Cons n ns)
  show ?case
  proof (cases "n_key n = k")
    case True
    from Cons.prems have "n_key n \<notin> n_key ` set ns" by simp
    with True have "\<forall>m \<in> set ns. n_key m \<noteq> k" by blast
    then have "filter (\<lambda>n. n_key n \<noteq> k) ns = ns" by (simp add: filter_id_conv)
    with True show ?thesis by simp
  next
    case False
    with Cons show ?thesis by simp
  qed
qed

lemma find_key_Some: "find (\<lambda>n. n_key n = k) ns = Some node \<Longrightarrow> n_key node = k \<and> node \<in> set ns"
  by (induction ns) (auto split: if_splits)

lemma find_key_None: "find (\<lambda>n. n_key n = k) ns = None \<longleftrightarrow> k \<notin> set (map n_key ns)"
  by (induction ns) auto

lemma lru_unlink_distinct: "distinct (map n_key ns) \<Longrightarrow> distinct (map n_key (lru_unlink k ns))"
  by (simp add: lru_unlink_keys)

lemma lru_unlink_notin: "distinct (map n_key ns) \<Longrightarrow> k \<notin> n_key ` set (lru_unlink k ns)"
  by (auto simp: lru_unlink_filter)

lemma lru_inv_moveToMostRecent:
  "lru_inv c \<Longrightarrow> lru_inv (LRUCache_moveToMostRecent c node)"
  by (simp add: lru_inv_def LRUCache_moveToMostRecent_def LRUCache_insertNode_def
      LRUCache_removeNode_def lru_unlink_distinct lru_unlink_notin)

lemma lru_inv_evictLeastRecent:
  "lru_inv c \<Longrightarrow> lru_inv (LRUCache_evictLeastRecent c)"
  by (cases "lru_list c") (simp_all add: lru_inv_def LRUCache_evictLeastRecent_def)

lemma lru_keys_evictLeastRecent:
  "set (lru_list (LRUCache_evictLeastRecent c)) \<subseteq> set (lru_list c)"
  by (cases "lru_list c") (auto simp: LRUCache_evictLeastRecent_def)

lemma lru_inv_insertNode:
  "lru_inv c \<Longrightarrow> n_key node \<notin> n_key ` set (lru_list c) \<Longrightarrow> lru_inv (LRUCache_insertNode c node)"
  by (simp add: lru_inv_def LRUCache_insertNode_def)

lemma lru_inv_addNewNode:
  assumes "lru_inv c" and "k \<notin> n_key ` set (lru_list c)"
  shows "lru_inv (LRUCache_addNewNode c k v)"
proof -
  have key: "n_key (LRUNode_new k v) = k" by (simp add: LRUNode_new_def)
  from assms(2) lru_keys_evictLeastRecent [of c]
  have "k \<notin> n_key ` set (lru_list (LRUCache_evictLeastRecent c))" by blast
  with assms show ?thesis
    by (simp add: LRUCache_addNewNode_def Let_def lru_inv_insertNode lru_inv_evictLeastRecent key)
qed

lemma lru_inv_put: "lru_inv c \<Longrightarrow> lru_inv (LRUCache_put c k v)"
proof -
  assume inv: "lru_inv c"
  show ?thesis
  proof (cases "lru_find c k")
    case (Some node)
    with inv show ?thesis
      by (simp add: LRUCache_put_def LRUCache_updateExistringNode_def lru_inv_moveToMostRecent)
  next
    case None
    then have "k \<notin> n_key ` set (lru_list c)"
      by (simp add: lru_find_def find_key_None)
    with inv None show ?thesis
      by (simp add: LRUCache_put_def lru_inv_addNewNode)
  qed
qed

lemma lru_inv_get: "lru_inv c \<Longrightarrow> lru_inv (snd (snd (LRUCache_get c k out)))"
  by (auto simp: LRUCache_get_def lru_inv_moveToMostRecent split: option.splits)

lemma lru_inv_remove: "lru_inv c \<Longrightarrow> lru_inv (LRUCache_remove c k)"
  by (auto simp: LRUCache_remove_def LRUCache_removeNode_def lru_inv_def lru_unlink_distinct
      split: option.splits)

lemma lru_reach_inv: "lru_reach cap c \<Longrightarrow> lru_inv c"
  by (induction rule: lru_reach.induct)
     (simp_all add: lru_inv_put lru_inv_get lru_inv_remove, simp add: lru_inv_def LRUCache_new_def)

lemma find_filter_other:
  "k' \<noteq> k \<Longrightarrow> find (\<lambda>n. n_key n = k') (filter (\<lambda>n. n_key n \<noteq> k) ns) = find (\<lambda>n. n_key n = k') ns"
  by (induction ns) auto

lemma LRUCache_remove_list:
  assumes "lru_inv c"
  shows "lru_list (LRUCache_remove c k) = filter (\<lambda>n. n_key n \<noteq> k) (lru_list c)"
proof (cases "lru_find c k")
  case None
  then have "k \<notin> set (map n_key (lru_list c))"
    unfolding lru_find_def find_key_None .
  then have "\<forall>n \<in> set (lru_list c). n_key n \<noteq> k" by auto
  then have "filter (\<lambda>n. n_key n \<noteq> k) (lru_list c) = lru_list c"
    by (simp add: filter_id_conv)
  moreover from None have "LRUCache_remove c k = c" by (simp add: LRUCache_remove_def)
  ultimately show ?thesis by simp
next
  case (Some node)
  then have "find (\<lambda>n. n_key n = k) (lru_list c) = Some node" by (simp add: lru_find_def)
  then have k: "n_key node = k" by (rule find_key_Some [THEN conjunct1])
  from Some have "lru_list (LRUCache_remove c k) = lru_unlink (n_key node) (lru_list c)"
    by (simp add: LRUCache_remove_def LRUCache_removeNode_def)
  also have "\<dots> = filter (\<lambda>n. n_key n \<noteq> k) (lru_list c)"
    using assms unfolding k lru_inv_def by (rule lru_unlink_filter)
  finally show ?thesis .
qed

text \<open>
  Claim C10.  \<open>remove(k)\<close> on a cache reached through the public operations: a
  following \<open>get(k)\<close> returns false; every other key keeps its node (presence, value
  and counter); the list of the remaining nodes is the old list without the node of
  \<open>k\<close>, in the old order; the capacity is unchanged; and when \<open>k\<close> is absent the
  whole cache is unchanged.
\<close>

theorem LRUCache_remove_frame:
  assumes "lru_reach cap c"
  shows "fst (LRUCache_get (LRUCache_remove c k) k out) = False
       \<and> (\<forall>k'. k' \<noteq> k \<longrightarrow> lru_find (LRUCache_remove c k) k' = lru_find c k')
       \<and> lru_list (LRUCache_remove c k) = filter (\<lambda>n. n_key n \<noteq> k) (lru_list c)
       \<and> lru_capacity (LRUCache_remove c k) = lru_capacity c
       \<and> (lru_find c k = None \<longrightarrow> LRUCache_remove c k = c)"
proof -
  from assms have inv: "lru_inv c" by (rule lru_reach_inv)
  then have l: "lru_list (LRUCache_remove c k) = filter (\<lambda>n. n_key n \<noteq> k) (lru_list c)"
    by (rule LRUCache_remove_list)
  have "lru_find (LRUCache_remove c k) k = None"
    by (auto simp: lru_find_def l find_key_None)
  then have 1: "fst (LRUCache_get (LRUCache_remove c k) k out) = False"
    by (simp add: LRUCache_get_def)
  have 2: "\<forall>k'. k' \<noteq> k \<longrightarrow> lru_find (LRUCache_remove c k) k' = lru_find c k'"
    by (simp add: lru_find_def l find_filter_other)
  have 3: "lru_capacity (LRUCache_remove c k) = lru_capacity c"
    by (simp add: LRUCache_remove_def LRUCache_removeNode_def split: option.splits)
  have 4: "lru_find c k = None \<longrightarrow> LRUCache_remove c k = c"
    by (simp add: LRUCache_remove_def)
  from 1 2 l 3 4 show ?thesis by (intro conjI)
qed

theorem LRUCache_remove_frame_witness:
  "lru_reach 2 (LRUCache_put (LRUCache_put (LRUCache_new 2) (1::nat) ''a'') 2 ''b'')
   \<and> (2::nat) \<noteq> 1
   \<and> lru_find (LRUCache_put (LRUCache_put (LRUCache_new 2) (1::nat) ''a'') 2 ''b'') 3 = None
   \<and> fst (LRUCache_get
        (LRUCache_remove (LRUCache_put (LRUCache_put (LRUCache_new 2) (1::nat) ''a'') 2 ''b'') 1) 1 '''')
       = False
   \<and> lru_find (LRUCache_remove (LRUCache_put (LRUCache_put (LRUCache_new 2) (1::nat) ''a'') 2 ''b'') 1) 2
       = lru_find (LRUCache_put (LRUCache_put (LRUCache_new 2) (1::nat) ''a'') 2 ''b'') 2
   \<and> LRUCache_remove (LRUCache_put (LRUCache_put (LRUCache_new 2) (1::nat) ''a'') 2 ''b'') 3
       = LRUCache_put (LRUCache_put (LRUCache_new 2) (1::nat) ''a'') 2 ''b''"
proof -
  let ?c = "LRUCache_put (LRUCache_put (LRUCache_new 2) (1::nat) ''a'') 2 ''b''"
  have r: "lru_reach 2 ?c" by (intro lru_reach.intros)
  have n: "lru_find ?c 3 = None" by code_simp
  from r n LRUCache_remove_frame [OF r, of 1 "''''"] LRUCache_remove_frame [OF r, of 3 "''''"]
  show ?thesis by simp
qed

lemma lru_find_SomeD:
  "lru_find c k = Some node \<Longrightarrow> n_key node = k \<and> node \<in> set (lru_list c)"
  unfolding lru_find_def by (rule find_key_Some)

lemma lru_find_None: "lru_find c k = None \<longleftrightarrow> k \<notin> n_key ` set (lru_list c)"
  by (simp add: lru_find_def find_key_None)

lemma lru_keys_moveToMostRecent:
  "lru_find c k = Some node \<Longrightarrow>
   set (map n_key (lru_list (LRUCache_moveToMostRecent c node'))) \<subseteq> insert (n_key node') (set (map n_key (lru_list c)))"
  by (auto simp: LRUCache_moveToMostRecent_def LRUCache_insertNode_def LRUCache_removeNode_def
      lru_unlink_keys dest: notin_set_remove1)

lemma lru_keys_put:
  "set (map n_key (lru_list (LRUCache_put c k v))) \<subseteq> insert k (set (map n_key (lru_list c)))"
proof (cases "lru_capacity c \<le> 0")
  case True
  then show ?thesis by (auto simp: LRUCache_put_def)
next
  case False
  show ?thesis
  proof (cases "lru_find c k")
    case None
    have "set (lru_list (LRUCache_addNewNode c k v)) \<subseteq> insert (LRUNode_new k v) (set (lru_list c))"
      using lru_keys_evictLeastRecent [of c]
      by (auto simp: LRUCache_addNewNode_def Let_def LRUCache_insertNode_def)
    then have "n_key ` set (lru_list (LRUCache_addNewNode c k v)) \<subseteq> insert k (n_key ` set (lru_list c))"
      by (auto simp: LRUNode_new_def)
    with None False show ?thesis by (simp add: LRUCache_put_def)
  next
    case (Some node)
    from lru_find_SomeD [OF Some] have k: "n_key node = k" by simp
    have "set (map n_key (lru_list (LRUCache_moveToMostRecent c (node\<lparr>n_value := v\<rparr>))))
       \<subseteq> insert (n_key (node\<lparr>n_value := v\<rparr>)) (set (map n_key (lru_list c)))"
      using Some by (rule lru_keys_moveToMostRecent)
    with Some False k show ?thesis
      by (simp add: LRUCache_put_def LRUCache_updateExistringNode_def)
  qed
qed

lemma lru_find_get_main:
  "lru_find (snd (snd (LRUCache_get c k out))) k' \<noteq> None \<Longrightarrow> lru_find c k' \<noteq> None"
proof (cases "lru_find c k")
  case None
  assume "lru_find (snd (snd (LRUCache_get c k out))) k' \<noteq> None"
  with None show ?thesis by (simp add: LRUCache_get_def)
next
  case (Some node)
  from lru_find_SomeD [OF Some] have k: "n_key node = k" and m: "node \<in> set (lru_list c)"
    by simp_all
  assume "lru_find (snd (snd (LRUCache_get c k out))) k' \<noteq> None"
  with Some have "k' \<in> set (map n_key (lru_list (LRUCache_moveToMostRecent c node)))"
    by (simp add: LRUCache_get_def lru_find_None)
  with lru_keys_moveToMostRecent [OF Some, of node] have "k' \<in> insert (n_key node) (set (map n_key (lru_list c)))"
    by blast
  with m have "k' \<in> set (map n_key (lru_list c))" by auto
  then show ?thesis by (simp add: lru_find_None)
qed

lemma lruk_bump_count:
  "fst (lruk_bump_history h k uninit)
     = size_t_inc (case lru_find h k of Some n \<Rightarrow> n_value n | None \<Rightarrow> uninit)"
  by (simp add: lruk_bump_history_def LRUCache_get_value_def LRUCache_get_def Let_def
      split: option.splits)

lemma lruk_put_main:
  "lruk_main (LRUKCache_put c k v uninit) =
     (if lru_find (lruk_main c) k \<noteq> None
      then LRUCache_put (snd (snd (LRUCache_get (lruk_main c) k v))) k v
      else if size_t_of_int (lruk_k c) \<le> size_t_inc (lruk_history_read c k uninit)
           then LRUCache_put (lruk_main c) k v else lruk_main c)"
proof (cases "lru_find (lruk_main c) k")
  case None
  obtain hc h1 where b: "lruk_bump_history (lruk_historyList c) k uninit = (hc, h1)"
    by (cases "lruk_bump_history (lruk_historyList c) k uninit")
  with lruk_bump_count [of "lruk_historyList c" k uninit]
  have hc: "hc = size_t_inc (lruk_history_read c k uninit)"
    by (simp add: lruk_history_read_def)
  from None b show ?thesis
    by (simp add: LRUKCache_put_def LRUCache_get_def Let_def hc)
next
  case (Some node)
  then show ?thesis
    by (simp add: LRUKCache_put_def LRUCache_get_def)
qed

lemma lruk_get_main:
  "lruk_main (snd (LRUKCache_get c k dflt uninit)) =
     (if lru_find (lruk_main c) k \<noteq> None
      then snd (snd (LRUCache_get (lruk_main c) k dflt))
      else if size_t_of_int (lruk_k c) \<le> size_t_inc (lruk_history_read c k uninit)
              \<and> map_of (lruk_historyValueMap c) k \<noteq> None
           then LRUCache_put (lruk_main c) k (the (map_of (lruk_historyValueMap c) k))
           else lruk_main c)"
proof -
  obtain hc h1 where b: "lruk_bump_history (lruk_historyList c) k uninit = (hc, h1)"
    by (cases "lruk_bump_history (lruk_historyList c) k uninit")
  with lruk_bump_count [of "lruk_historyList c" k uninit]
  have hc: "hc = size_t_inc (lruk_history_read c k uninit)"
    by (simp add: lruk_history_read_def)
  show ?thesis
  proof (cases "lru_find (lruk_main c) k")
    case None
    with b show ?thesis
      by (simp add: LRUKCache_get_def LRUCache_get_def Let_def hc split: option.splits)
  next
    case (Some node)
    with b show ?thesis
      by (simp add: LRUKCache_get_def LRUCache_get_def Let_def)
  qed
qed

lemma lru_find_put_other:
  assumes "lru_find (LRUCache_put c k v) k' \<noteq> None" and "lru_find c k' = None"
  shows "k' = k"
proof -
  from assms(1) have "k' \<in> set (map n_key (lru_list (LRUCache_put c k v)))"
    by (simp add: lru_find_None)
  with lru_keys_put [of c k v] have "k' \<in> insert k (set (map n_key (lru_list c)))" by blast
  moreover from assms(2) have "k' \<notin> set (map n_key (lru_list c))" by (simp add: lru_find_None)
  ultimately show ?thesis by simp
qed

lemma find_snoc:
  "find P (xs @ [x]) = (case find P xs of Some y \<Rightarrow> Some y | None \<Rightarrow> if P x then Some x else None)"
  by (induction xs) auto

lemma lru_capacity_get [simp]: "lru_capacity (snd (snd (LRUCache_get c k out))) = lru_capacity c"
  by (simp add: LRUCache_get_def LRUCache_moveToMostRecent_def LRUCache_insertNode_def
      LRUCache_removeNode_def split: option.splits)

lemma lru_capacity_put [simp]: "lru_capacity (LRUCache_put c k v) = lru_capacity c"
  by (simp add: LRUCache_put_def LRUCache_updateExistringNode_def LRUCache_moveToMostRecent_def
      LRUCache_insertNode_def LRUCache_removeNode_def LRUCache_addNewNode_def Let_def
      LRUCache_evictLeastRecent_def split: option.splits list.splits)

lemma lru_find_moveToMostRecent:
  assumes "lru_inv c"
  shows "lru_find (LRUCache_moveToMostRecent c node) (n_key node) = Some node"
proof -
  from assms have "n_key node \<notin> n_key ` set (lru_unlink (n_key node) (lru_list c))"
    unfolding lru_inv_def by (rule lru_unlink_notin)
  then have "find (\<lambda>n. n_key n = n_key node) (lru_unlink (n_key node) (lru_list c)) = None"
    by (simp add: find_key_None)
  then show ?thesis
    by (simp add: lru_find_def LRUCache_moveToMostRecent_def LRUCache_insertNode_def
        LRUCache_removeNode_def find_snoc)
qed

lemma lru_find_addNewNode:
  assumes "lru_find c k = None"
  shows "lru_find (LRUCache_addNewNode c k v) k = Some (LRUNode_new k v)"
proof -
  let ?c1 = "if size_t_of_int (lru_capacity c) \<le> length (lru_list c)
             then LRUCache_evictLeastRecent c else c"
  from assms have "k \<notin> n_key ` set (lru_list c)" by (simp add: lru_find_None)
  with lru_keys_evictLeastRecent [of c] have "k \<notin> n_key ` set (lru_list ?c1)" by auto
  then have "find (\<lambda>n. n_key n = k) (lru_list ?c1) = None"
    by (simp only: find_key_None set_map not_False_eq_True)
  then show ?thesis
    by (simp add: lru_find_def LRUCache_addNewNode_def Let_def LRUCache_insertNode_def find_snoc
        LRUNode_new_def)
qed

lemma lru_find_put_same:
  assumes "lru_inv c" and "0 < lru_capacity c"
  shows "\<exists>node. lru_find (LRUCache_put c k v) k = Some node \<and> n_value node = v"
proof (cases "lru_find c k")
  case None
  with assms(2) have "lru_find (LRUCache_put c k v) k = Some (LRUNode_new k v)"
    by (simp add: LRUCache_put_def lru_find_addNewNode)
  then show ?thesis by (simp add: LRUNode_new_def)
next
  case (Some node)
  from lru_find_SomeD [OF Some] have k: "n_key node = k" by simp
  from assms(1) have "lru_find (LRUCache_moveToMostRecent c (node\<lparr>n_value := v\<rparr>))
      (n_key (node\<lparr>n_value := v\<rparr>)) = Some (node\<lparr>n_value := v\<rparr>)"
    by (rule lru_find_moveToMostRecent)
  with Some assms(2) k have "lru_find (LRUCache_put c k v) k = Some (node\<lparr>n_value := v\<rparr>)"
    by (simp add: LRUCache_put_def LRUCache_updateExistringNode_def)
  then show ?thesis by simp
qed

lemma lruk_history_after_bump:
  assumes "lru_inv h" and "0 < lru_capacity h"
  shows "\<exists>node. lru_find (snd (lruk_bump_history h k uninit)) k = Some node
            \<and> n_value node = fst (lruk_bump_history h k uninit)"
proof -
  let ?h1 = "snd (snd (LRUCache_get h k uninit))"
  have e: "lruk_bump_history h k uninit =
      (size_t_inc (fst (snd (LRUCache_get h k uninit))),
       LRUCache_put ?h1 k (size_t_inc (fst (snd (LRUCache_get h k uninit)))))"
    by (simp add: lruk_bump_history_def LRUCache_get_value_def Let_def split: prod.splits)
  from assms(1) have "lru_inv ?h1" by (rule lru_inv_get)
  moreover from assms(2) have "0 < lru_capacity ?h1" by simp
  ultimately have "\<exists>node. lru_find (LRUCache_put ?h1 k (size_t_inc (fst (snd (LRUCache_get h k uninit))))) k
      = Some node \<and> n_value node = size_t_inc (fst (snd (LRUCache_get h k uninit)))"
    by (rule lru_find_put_same)
  then show ?thesis by (simp add: e)
qed

lemma LRUKCache_get_hit:
  assumes "lru_find (lruk_main c) k = Some node"
  shows "LRUKCache_get c k dflt uninit =
      (n_value node, c\<lparr>lruk_main := LRUCache_moveToMostRecent (lruk_main c) node,
                        lruk_historyList := snd (lruk_bump_history (lruk_historyList c) k uninit)\<rparr>)"
  using assms
  by (simp add: LRUKCache_get_def LRUCache_get_def Let_def split: prod.splits)

lemma lruk_history_after_get_hit:
  assumes "lru_find (lruk_main c) k = Some node" and "lru_inv (lruk_historyList c)"
    and "0 < lru_capacity (lruk_historyList c)"
  shows "\<exists>n. lru_find (lruk_historyList (snd (LRUKCache_get c k dflt uninit))) k = Some n
           \<and> n_value n = size_t_inc (lruk_history_read c k uninit)"
proof -
  from lruk_history_after_bump [OF assms(2,3), of k uninit]
  obtain n where "lru_find (snd (lruk_bump_history (lruk_historyList c) k uninit)) k = Some n"
    and "n_value n = fst (lruk_bump_history (lruk_historyList c) k uninit)" by blast
  then show ?thesis
    by (simp add: LRUKCache_get_hit [OF assms(1)] lruk_bump_count lruk_history_read_def)
qed

lemma lruk_run_single: "lruk_run dflt c [opu] = lruk_step dflt c opu"
  by (simp add: lruk_run_def)

lemma lru_inv_new: "lru_inv (LRUCache_new cap)"
  by (simp add: lru_inv_def LRUCache_new_def)

text \<open>
  Claim C7, at the first access of a key.  \<open>put\<close> on a key that is not resident reads
  \<open>_historyList->get(key)\<close>, increments it and admits the key when the result is at
  least \<open>K\<close>.  For a key without record that read is the uninitialised local of
  \<open>LRUCache<Key, size_t>::get(Key)\<close>.  So, whenever that content plus one is at least
  \<open>K\<close>, the very first \<open>put\<close> on a fresh engine of capacity at least 1 makes the key
  resident in the main cache, after one access, and a \<open>get\<close> returns its value.
\<close>

theorem lruk_first_put_admits:
  assumes "0 < cap" and "size_t_of_int K \<le> size_t_inc uninit"
  shows "lruk_resident (lruk_run dflt (LRUKCache_new cap historyCapacity K) [(Put k v, uninit)]) k
       \<and> fst (LRUKCache_get
                (lruk_run dflt (LRUKCache_new cap historyCapacity K) [(Put k v, uninit)])
                k dflt uninit') = v"
proof -
  let ?new = "LRUKCache_new cap historyCapacity K :: ('a, 'b) LRUKCache"
  let ?c = "lruk_run dflt ?new [(Put k v, uninit)]"
  have c: "?c = LRUKCache_put ?new k v uninit" by (simp add: lruk_run_single lruk_step_def)
  have f: "lru_find (lruk_main ?new) k = None"
    by (simp add: LRUKCache_new_def LRUCache_new_def lru_find_def)
  have r: "lruk_history_read ?new k uninit = uninit"
    by (simp add: lruk_history_read_def LRUKCache_new_def LRUCache_new_def lru_find_def)
  have K: "lruk_k ?new = K" by (simp add: LRUKCache_new_def)
  from assms(2) have m: "lruk_main ?c = LRUCache_put (LRUCache_new cap) k v"
    by (simp add: c lruk_put_main f r K) (simp add: LRUKCache_new_def)
  from assms(1) have "0 < lru_capacity (LRUCache_new cap :: ('a, 'b) LRUCache)"
    by (simp add: LRUCache_new_def)
  with lru_inv_new obtain node where n: "lru_find (lruk_main ?c) k = Some node" "n_value node = v"
    unfolding m using lru_find_put_same [of "LRUCache_new cap" k v] by blast
  from n(1) have "lruk_resident ?c k" by (simp add: lruk_resident_def)
  moreover from n have "fst (LRUKCache_get ?c k dflt uninit') = v"
    by (simp add: LRUKCache_get_hit)
  ultimately show ?thesis by (intro conjI)
qed

theorem lruk_first_put_admits_witness:
  "(0::int) < 2 \<and> size_t_of_int 3 \<le> size_t_inc 93824992236880
   \<and> lruk_resident
       (lruk_run '''' (LRUKCache_new 2 4 3) [(Put (1::nat) ''a'', 93824992236880)]) 1
   \<and> fst (LRUKCache_get
            (lruk_run '''' (LRUKCache_new 2 4 3) [(Put (1::nat) ''a'', 93824992236880)])
            1 '''' 93824992236880) = ''a''"
proof -
  have 1: "(0::int) < 2" by simp
  have 2: "size_t_of_int 3 \<le> size_t_inc 93824992236880" by code_simp
  from lruk_first_put_admits [OF 1 2, of "''''" 4 "1::nat" "''a''" 93824992236880] 1 2
  show ?thesis by (intro conjI) simp_all
qed

text \<open>
  Claim C8, as the code has it.  \<open>get(k)\<close> on a key that is resident in the main cache
  touches it and returns its value, and leaves the staging map alone; but the history
  is updated before the hit is looked at: \<open>_historyList->get(key)\<close> is read,
  incremented and written back.  So, whenever the history has a positive capacity,
  the history holds a record of \<open>k\<close> afterwards, whose count is one more than the
  count read: the count of the record of \<open>k\<close>, or the content of the uninitialised
  local of the history's \<open>get\<close> when \<open>k\<close> had no record.
\<close>

theorem LRUKCache_get_resident:
  assumes "lru_find (lruk_main c) k = Some node" and "lru_inv (lruk_historyList c)"
  shows "fst (LRUKCache_get c k dflt uninit) = n_value node
       \<and> lruk_main (snd (LRUKCache_get c k dflt uninit))
           = LRUCache_moveToMostRecent (lruk_main c) node
       \<and> lruk_historyValueMap (snd (LRUKCache_get c k dflt uninit)) = lruk_historyValueMap c
       \<and> lruk_k (snd (LRUKCache_get c k dflt uninit)) = lruk_k c
       \<and> lruk_historyList (snd (LRUKCache_get c k dflt uninit))
           = snd (lruk_bump_history (lruk_historyList c) k uninit)
       \<and> (0 < lru_capacity (lruk_historyList c) \<longrightarrow>
            (\<exists>n. lru_find (lruk_historyList (snd (LRUKCache_get c k dflt uninit))) k = Some n
                \<and> n_value n = size_t_inc (lruk_history_read c k uninit)))"
proof -
  note g = LRUKCache_get_hit [OF assms(1), of dflt uninit]
  have "\<exists>n. lru_find (lruk_historyList (snd (LRUKCache_get c k dflt uninit))) k = Some n
                \<and> n_value n = size_t_inc (lruk_history_read c k uninit)"
    if "0 < lru_capacity (lruk_historyList c)"
    using assms that by (rule lruk_history_after_get_hit)
  then show ?thesis by (simp add: g)
qed

theorem LRUKCache_get_resident_witness:
  "lru_find (lruk_main (LRUKCache_put (LRUKCache_new 2 4 3) (1::nat) ''a'' 93824992236880)) 1
     = Some \<lparr>n_key = 1, n_value = ''a'', n_accessCount = 1\<rparr>
   \<and> lru_inv (lruk_historyList (LRUKCache_put (LRUKCache_new 2 4 3) (1::nat) ''a'' 93824992236880))
   \<and> 0 < lru_capacity
           (lruk_historyList (LRUKCache_put (LRUKCache_new 2 4 3) (1::nat) ''a'' 93824992236880))
   \<and> lru_find (lruk_historyList (LRUKCache_put (LRUKCache_new 2 4 3) (1::nat) ''a'' 93824992236880)) 1
       = None
   \<and> fst (LRUKCache_get (LRUKCache_put (LRUKCache_new 2 4 3) (1::nat) ''a'' 93824992236880)
            1 '''' 140737488347008) = ''a''
   \<and> (\<exists>n. lru_find (lruk_historyList (snd (LRUKCache_get
              (LRUKCache_put (LRUKCache_new 2 4 3) (1::nat) ''a'' 93824992236880)
              1 '''' 140737488347008))) 1 = Some n
         \<and> n_value n = 140737488347009)"
proof -
  let ?c = "LRUKCache_put (LRUKCache_new 2 4 3) (1::nat) ''a'' 93824992236880"
  have 1: "lru_find (lruk_main ?c) 1 = Some \<lparr>n_key = 1, n_value = ''a'', n_accessCount = 1\<rparr>"
    by code_simp
  have 2: "lru_inv (lruk_historyList ?c)" by code_simp
  have 3: "0 < lru_capacity (lruk_historyList ?c)" by code_simp
  have 4: "lru_find (lruk_historyList ?c) 1 = None" by code_simp
  have 5: "size_t_inc (lruk_history_read ?c 1 140737488347008) = 140737488347009" by code_simp
  note t = LRUKCache_get_resident [OF 1 2, of "''''" 140737488347008]
  from t have a: "fst (LRUKCache_get ?c 1 '''' 140737488347008) = ''a''" by simp
  from t 3 have "\<exists>n. lru_find (lruk_historyList (snd (LRUKCache_get ?c 1 '''' 140737488347008))) 1
        = Some n
      \<and> n_value n = size_t_inc (lruk_history_read ?c 1 140737488347008)"
    by blast
  then have e: "\<exists>n. lru_find (lruk_historyList (snd (LRUKCache_get ?c 1 '''' 140737488347008))) 1
        = Some n \<and> n_value n = 140737488347009"
    by (simp only: 5)
  from 1 2 3 4 a e show ?thesis by (intro conjI)
qed

theorem LRUKCache_get_resident_changes_history:
  "lruk_resident (LRUKCache_put (LRUKCache_new 2 4 3) (1::nat) ''a'' 93824992236880) 1
   \<and> lru_find (lruk_historyList (LRUKCache_put (LRUKCache_new 2 4 3) (1::nat) ''a'' 93824992236880)) 1
       = None
   \<and> (\<forall>uninit. lru_find (lruk_historyList (snd (LRUKCache_get
              (LRUKCache_put (LRUKCache_new 2 4 3) (1::nat) ''a'' 93824992236880)
              1 '''' uninit))) 1 \<noteq> None)"
proof -
  let ?c = "LRUKCache_put (LRUKCache_new 2 4 3) (1::nat) ''a'' 93824992236880"
  have 1: "lru_find (lruk_main ?c) 1 = Some \<lparr>n_key = 1, n_value = ''a'', n_accessCount = 1\<rparr>"
    by code_simp
  have 2: "lru_inv (lruk_historyList ?c)" by code_simp
  have 3: "0 < lru_capacity (lruk_historyList ?c)" by code_simp
  have 4: "lru_find (lruk_historyList ?c) 1 = None" by code_simp
  from 1 have r: "lruk_resident ?c 1" by (simp add: lruk_resident_def)
  have "lru_find (lruk_historyList (snd (LRUKCache_get ?c 1 '''' uninit))) 1 \<noteq> None" for uninit
    using lruk_history_after_get_hit [OF 1 2 3, of "''''" uninit] by auto
  with r 4 show ?thesis by (intro conjI allI)
qed

lemma LRUCache_get_hit:
  assumes "lru_find c k = Some node"
  shows "LRUCache_get c k out = (True, n_value node, c\<lparr>lru_list := lru_unlink k (lru_list c) @ [node]\<rparr>)"
proof -
  from lru_find_SomeD [OF assms] have "n_key node = k" by simp
  with assms show ?thesis
    by (simp add: LRUCache_get_def LRUCache_moveToMostRecent_def LRUCache_insertNode_def
        LRUCache_removeNode_def)
qed

lemma lru_unlink_subset: "set (lru_unlink k ns) \<subseteq> set ns"
  by (induction ns) auto

lemma lru_counts_moveToMostRecent:
  assumes "\<forall>n \<in> set (lru_list c). n_accessCount n = 1" and "n_accessCount node = 1"
  shows "\<forall>n \<in> set (lru_list (LRUCache_moveToMostRecent c node)). n_accessCount n = 1"
  using assms lru_unlink_subset [of "n_key node" "lru_list c"]
  by (auto simp: LRUCache_moveToMostRecent_def LRUCache_insertNode_def LRUCache_removeNode_def)

lemma lru_counts_put:
  assumes "\<forall>n \<in> set (lru_list c). n_accessCount n = 1"
  shows "\<forall>n \<in> set (lru_list (LRUCache_put c k v)). n_accessCount n = 1"
proof (cases "lru_find c k")
  case None
  have "set (lru_list (LRUCache_addNewNode c k v)) \<subseteq> insert (LRUNode_new k v) (set (lru_list c))"
    using lru_keys_evictLeastRecent [of c]
    by (auto simp: LRUCache_addNewNode_def Let_def LRUCache_insertNode_def)
  moreover have "n_accessCount (LRUNode_new k v) = 1" by (simp add: LRUNode_new_def)
  ultimately have "\<forall>n \<in> set (lru_list (LRUCache_addNewNode c k v)). n_accessCount n = 1"
    using assms by auto
  with None assms show ?thesis by (simp add: LRUCache_put_def)
next
  case (Some node)
  from lru_find_SomeD [OF Some] assms have "n_accessCount (node\<lparr>n_value := v\<rparr>) = 1" by simp
  with assms have "\<forall>n \<in> set (lru_list (LRUCache_moveToMostRecent c (node\<lparr>n_value := v\<rparr>))).
      n_accessCount n = 1"
    by (rule lru_counts_moveToMostRecent)
  with Some assms show ?thesis by (simp add: LRUCache_put_def LRUCache_updateExistringNode_def)
qed

lemma lru_counts_get:
  assumes "\<forall>n \<in> set (lru_list c). n_accessCount n = 1"
  shows "\<forall>n \<in> set (lru_list (snd (snd (LRUCache_get c k out)))). n_accessCount n = 1"
proof (cases "lru_find c k")
  case None
  with assms show ?thesis by (simp add: LRUCache_get_def)
next
  case (Some node)
  from lru_find_SomeD [OF Some] assms have "n_accessCount node = 1" by simp
  with assms have "\<forall>n \<in> set (lru_list (LRUCache_moveToMostRecent c node)). n_accessCount n = 1"
    by (rule lru_counts_moveToMostRecent)
  with Some show ?thesis by (simp add: LRUCache_get_def)
qed

lemma lru_counts_remove:
  assumes "\<forall>n \<in> set (lru_list c). n_accessCount n = 1"
  shows "\<forall>n \<in> set (lru_list (LRUCache_remove c k)). n_accessCount n = 1"
  using assms lru_unlink_subset [of _ "lru_list c"]
  by (auto simp: LRUCache_remove_def LRUCache_removeNode_def split: option.splits)

lemma lru_reach_accessCount:
  "lru_reach cap c \<Longrightarrow> \<forall>n \<in> set (lru_list c). n_accessCount n = 1"
proof (induction rule: lru_reach.induct)
  case lru_reach_new
  show ?case by (simp add: LRUCache_new_def)
next
  case (lru_reach_put c k v)
  from lru_reach_put.IH show ?case by (rule lru_counts_put)
next
  case (lru_reach_get c k out)
  from lru_reach_get.IH show ?case by (rule lru_counts_get)
next
  case (lru_reach_remove c k)
  from lru_reach_remove.IH show ?case by (rule lru_counts_remove)
qed

text \<open>
  Claim C3 at a concrete hit.  \<open>get(1)\<close> on the cache holding the single entry
  \<open>(1, ''a'')\<close> returns true, writes the value to the out-parameter and leaves the
  node at the fresh end; the access counter of the entry is 1 before the call and 1
  after it.  The lemmas above give the same for every hit (\<open>LRUCache_get_hit\<close>) and
  for every state the engine reaches (\<open>lru_reach_accessCount\<close>): no operation of
  \<open>LRUCache\<close> calls \<open>incrementAccessCount\<close>.
\<close>

theorem LRUCache_get_hit_keeps_accessCount:
  "lru_list (LRUCache_put (LRUCache_new 2) (1::nat) ''a'')
     = [\<lparr>n_key = 1, n_value = ''a'', n_accessCount = 1\<rparr>]
   \<and> LRUCache_get (LRUCache_put (LRUCache_new 2) (1::nat) ''a'') 1 ''''
     = (True, ''a'',
        \<lparr>lru_capacity = 2, lru_list = [\<lparr>n_key = 1, n_value = ''a'', n_accessCount = 1\<rparr>]\<rparr>)"
  by code_simp

lemma alru_evictLeastRecent_caps [simp]:
  "alru_capacity (ArcLruPart_evictLeastRecent p) = alru_capacity p"
  "alru_ghostCapacity (ArcLruPart_evictLeastRecent p) = alru_ghostCapacity p"
  by (simp_all add: ArcLruPart_evictLeastRecent_def Let_def ArcLruPart_addToGhost_def
      ArcLruPart_removeOldestGhost_def)

lemma alru_put_caps [simp]:
  "alru_capacity (snd (ArcLruPart_put p k v)) = alru_capacity p"
  "alru_ghostCapacity (snd (ArcLruPart_put p k v)) = alru_ghostCapacity p"
  by (simp_all add: ArcLruPart_put_def ArcLruPart_updateExistingNode_def ArcLruPart_addNewNode_def
      ArcLruPart_moveToFront_def ArcLruPart_addToFront_def ArcLruPart_removeFromMain_def Let_def
      split: option.splits)

lemma alru_get_caps [simp]:
  "alru_capacity (snd (snd (snd (ArcLruPart_get p k out st)))) = alru_capacity p"
  "alru_ghostCapacity (snd (snd (snd (ArcLruPart_get p k out st)))) = alru_ghostCapacity p"
  by (simp_all add: ArcLruPart_get_def ArcLruPart_updateNodeAccess_def
      ArcLruPart_moveToFront_def ArcLruPart_addToFront_def ArcLruPart_removeFromMain_def Let_def
      split: option.splits)

lemma alru_checkGhost_caps [simp]:
  "alru_capacity (snd (ArcLruPart_checkGhost p k)) = alru_capacity p"
  "alru_ghostCapacity (snd (ArcLruPart_checkGhost p k)) = alru_ghostCapacity p"
  by (simp_all add: ArcLruPart_checkGhost_def ArcLruPart_removeFromGhost_def split: option.splits)

lemma alru_increaseCapacity_caps [simp]:
  "alru_capacity (ArcLruPart_increaseCapacity p) = size_t_inc (alru_capacity p)"
  "alru_ghostCapacity (ArcLruPart_increaseCapacity p) = alru_ghostCapacity p"
  by (simp_all add: ArcLruPart_increaseCapacity_def)

lemma alru_decreaseCapacity_caps:
  "alru_capacity (snd (ArcLruPart_decreaseCapacity p)) =
     (if fst (ArcLruPart_decreaseCapacity p) then alru_capacity p - 1 else alru_capacity p)"
  "fst (ArcLruPart_decreaseCapacity p) \<longleftrightarrow> 0 < alru_capacity p"
  "alru_ghostCapacity (snd (ArcLruPart_decreaseCapacity p)) = alru_ghostCapacity p"
  by (simp_all add: ArcLruPart_decreaseCapacity_def Let_def)

lemma alfu_evictLeastFrequent_caps [simp]:
  "alfu_capacity (ArcLfuPart_evictLeastFrequent p) = alfu_capacity p"
  "alfu_ghostCapacity (ArcLfuPart_evictLeastFrequent p) = alfu_ghostCapacity p"
  by (simp_all add: ArcLfuPart_evictLeastFrequent_def Let_def ArcLfuPart_addToGhost_def
      ArcLfuPart_removeOldestGhost_def split: list.splits)

lemma alfu_updateNodeFrequency_caps [simp]:
  "alfu_capacity (ArcLfuPart_updateNodeFrequency p node) = alfu_capacity p"
  "alfu_ghostCapacity (ArcLfuPart_updateNodeFrequency p node) = alfu_ghostCapacity p"
  by (simp_all add: ArcLfuPart_updateNodeFrequency_def Let_def)

lemma alfu_put_caps [simp]:
  "alfu_capacity (snd (ArcLfuPart_put p k v)) = alfu_capacity p"
  "alfu_ghostCapacity (snd (ArcLfuPart_put p k v)) = alfu_ghostCapacity p"
  by (simp_all add: ArcLfuPart_put_def ArcLfuPart_updateExistingNode_def ArcLfuPart_addNewNode_def
      Let_def split: option.splits)

lemma alfu_get_caps [simp]:
  "alfu_capacity (snd (snd (ArcLfuPart_get p k out))) = alfu_capacity p"
  "alfu_ghostCapacity (snd (snd (ArcLfuPart_get p k out))) = alfu_ghostCapacity p"
  by (simp_all add: ArcLfuPart_get_def split: option.splits)

lemma alfu_checkGhost_caps [simp]:
  "alfu_capacity (snd (ArcLfuPart_checkGhost p k)) = alfu_capacity p"
  "alfu_ghostCapacity (snd (ArcLfuPart_checkGhost p k)) = alfu_ghostCapacity p"
  by (simp_all add: ArcLfuPart_checkGhost_def ArcLfuPart_removeFromGhost_def split: option.splits)

lemma alfu_increaseCapacity_caps [simp]:
  "alfu_capacity (ArcLfuPart_increaseCapacity p) = size_t_inc (alfu_capacity p)"
  "alfu_ghostCapacity (ArcLfuPart_increaseCapacity p) = alfu_ghostCapacity p"
  by (simp_all add: ArcLfuPart_increaseCapacity_def)

lemma alfu_decreaseCapacity_caps:
  "alfu_capacity (snd (ArcLfuPart_decreaseCapacity p)) =
     (if fst (ArcLfuPart_decreaseCapacity p) then alfu_capacity p - 1 else alfu_capacity p)"
  "fst (ArcLfuPart_decreaseCapacity p) \<longleftrightarrow> 0 < alfu_capacity p"
  "alfu_ghostCapacity (snd (ArcLfuPart_decreaseCapacity p)) = alfu_ghostCapacity p"
  by (simp_all add: ArcLfuPart_decreaseCapacity_def Let_def)

text \<open>The effect of the ghost-driven rebalance on the four capacities.\<close>

lemma ArcCache_checkGhostCaches_caps:
  "alru_ghostCapacity (arc_lruPart (snd (ArcCache_checkGhostCaches c k))) = alru_ghostCapacity (arc_lruPart c)"
  "alfu_ghostCapacity (arc_lfuPart (snd (ArcCache_checkGhostCaches c k))) = alfu_ghostCapacity (arc_lfuPart c)"
  "arc_capacity (snd (ArcCache_checkGhostCaches c k)) = arc_capacity c"
  "(alru_capacity (arc_lruPart (snd (ArcCache_checkGhostCaches c k))),
    alfu_capacity (arc_lfuPart (snd (ArcCache_checkGhostCaches c k)))) =
   (if fst (ArcLruPart_checkGhost (arc_lruPart c) k) then
      (if 0 < alfu_capacity (arc_lfuPart c)
       then (size_t_inc (alru_capacity (arc_lruPart c)), alfu_capacity (arc_lfuPart c) - 1)
       else (alru_capacity (arc_lruPart c), alfu_capacity (arc_lfuPart c)))
    else if fst (ArcLfuPart_checkGhost (arc_lfuPart c) k) then
      (if 0 < alru_capacity (arc_lruPart c)
       then (alru_capacity (arc_lruPart c) - 1, size_t_inc (alfu_capacity (arc_lfuPart c)))
       else (alru_capacity (arc_lruPart c), alfu_capacity (arc_lfuPart c)))
    else (alru_capacity (arc_lruPart c), alfu_capacity (arc_lfuPart c)))"
proof -
  obtain b1 l1 where 1: "ArcLruPart_checkGhost (arc_lruPart c) k = (b1, l1)"
    by (cases "ArcLruPart_checkGhost (arc_lruPart c) k")
  obtain b2 f2 where 2: "ArcLfuPart_decreaseCapacity (arc_lfuPart c) = (b2, f2)"
    by (cases "ArcLfuPart_decreaseCapacity (arc_lfuPart c)")
  obtain b3 f3 where 3: "ArcLfuPart_checkGhost (arc_lfuPart c) k = (b3, f3)"
    by (cases "ArcLfuPart_checkGhost (arc_lfuPart c) k")
  obtain b4 l4 where 4: "ArcLruPart_decreaseCapacity l1 = (b4, l4)"
    by (cases "ArcLruPart_decreaseCapacity l1")
  from 1 alru_checkGhost_caps [of "arc_lruPart c" k]
  have l1: "alru_capacity l1 = alru_capacity (arc_lruPart c)"
           "alru_ghostCapacity l1 = alru_ghostCapacity (arc_lruPart c)" by simp_all
  from 3 alfu_checkGhost_caps [of "arc_lfuPart c" k]
  have f3: "alfu_capacity f3 = alfu_capacity (arc_lfuPart c)"
           "alfu_ghostCapacity f3 = alfu_ghostCapacity (arc_lfuPart c)" by simp_all
  from 2 alfu_decreaseCapacity_caps [of "arc_lfuPart c"]
  have f2: "alfu_capacity f2 = (if b2 then alfu_capacity (arc_lfuPart c) - 1 else alfu_capacity (arc_lfuPart c))"
           "b2 \<longleftrightarrow> 0 < alfu_capacity (arc_lfuPart c)"
           "alfu_ghostCapacity f2 = alfu_ghostCapacity (arc_lfuPart c)" by simp_all
  from 4 alru_decreaseCapacity_caps [of l1] l1
  have l4: "alru_capacity l4 = (if b4 then alru_capacity (arc_lruPart c) - 1 else alru_capacity (arc_lruPart c))"
           "b4 \<longleftrightarrow> 0 < alru_capacity (arc_lruPart c)"
           "alru_ghostCapacity l4 = alru_ghostCapacity (arc_lruPart c)" by simp_all
  show "alru_ghostCapacity (arc_lruPart (snd (ArcCache_checkGhostCaches c k))) = alru_ghostCapacity (arc_lruPart c)"
    using 1 2 3 4 l1 l4 by (cases b1; cases b2; cases b3; cases b4) (simp_all add: ArcCache_checkGhostCaches_def)
  show "alfu_ghostCapacity (arc_lfuPart (snd (ArcCache_checkGhostCaches c k))) = alfu_ghostCapacity (arc_lfuPart c)"
    using 1 2 3 4 f2 f3 by (cases b1; cases b2; cases b3; cases b4) (simp_all add: ArcCache_checkGhostCaches_def)
  show "arc_capacity (snd (ArcCache_checkGhostCaches c k)) = arc_capacity c"
    using 1 2 3 4 by (cases b1; cases b2; cases b3; cases b4) (simp_all add: ArcCache_checkGhostCaches_def)
  show "(alru_capacity (arc_lruPart (snd (ArcCache_checkGhostCaches c k))),
    alfu_capacity (arc_lfuPart (snd (ArcCache_checkGhostCaches c k)))) =
   (if fst (ArcLruPart_checkGhost (arc_lruPart c) k) then
      (if 0 < alfu_capacity (arc_lfuPart c)
       then (size_t_inc (alru_capacity (arc_lruPart c)), alfu_capacity (arc_lfuPart c) - 1)
       else (alru_capacity (arc_lruPart c), alfu_capacity (arc_lfuPart c)))
    else if fst (ArcLfuPart_checkGhost (arc_lfuPart c) k) then
      (if 0 < alru_capacity (arc_lruPart c)
       then (alru_capacity (arc_lruPart c) - 1, size_t_inc (alfu_capacity (arc_lfuPart c)))
       else (alru_capacity (arc_lruPart c), alfu_capacity (arc_lfuPart c)))
    else (alru_capacity (arc_lruPart c), alfu_capacity (arc_lfuPart c)))"
    using 1 2 3 4 l1 l4 f2 f3
    by (cases b1; cases b2; cases b3; cases b4) (simp_all add: ArcCache_checkGhostCaches_def)
qed

lemma ArcCache_put_caps:
  "alru_capacity (arc_lruPart (ArcCache_put c k v)) = alru_capacity (arc_lruPart (snd (ArcCache_checkGhostCaches c k)))"
  "alfu_capacity (arc_lfuPart (ArcCache_put c k v)) = alfu_capacity (arc_lfuPart (snd (ArcCache_checkGhostCaches c k)))"
  "alru_ghostCapacity (arc_lruPart (ArcCache_put c k v)) = alru_ghostCapacity (arc_lruPart (snd (ArcCache_checkGhostCaches c k)))"
  "alfu_ghostCapacity (arc_lfuPart (ArcCache_put c k v)) = alfu_ghostCapacity (arc_lfuPart (snd (ArcCache_checkGhostCaches c k)))"
  "arc_capacity (ArcCache_put c k v) = arc_capacity (snd (ArcCache_checkGhostCaches c k))"
  by (simp_all add: ArcCache_put_def Let_def)

lemma ArcCache_get_caps:
  "alru_capacity (arc_lruPart (snd (snd (ArcCache_get c k out)))) = alru_capacity (arc_lruPart (snd (ArcCache_checkGhostCaches c k)))"
  "alfu_capacity (arc_lfuPart (snd (snd (ArcCache_get c k out)))) = alfu_capacity (arc_lfuPart (snd (ArcCache_checkGhostCaches c k)))"
  "alru_ghostCapacity (arc_lruPart (snd (snd (ArcCache_get c k out)))) = alru_ghostCapacity (arc_lruPart (snd (ArcCache_checkGhostCaches c k)))"
  "alfu_ghostCapacity (arc_lfuPart (snd (snd (ArcCache_get c k out)))) = alfu_ghostCapacity (arc_lfuPart (snd (ArcCache_checkGhostCaches c k)))"
  "arc_capacity (snd (snd (ArcCache_get c k out))) = arc_capacity (snd (ArcCache_checkGhostCaches c k))"
proof -
  let ?c1 = "snd (ArcCache_checkGhostCaches c k)"
  obtain hit v st l1 where g: "ArcLruPart_get (arc_lruPart ?c1) k out False = (hit, v, st, l1)"
    by (cases "ArcLruPart_get (arc_lruPart ?c1) k out False") auto
  from g alru_get_caps [of "arc_lruPart ?c1" k out False]
  have l1: "alru_capacity l1 = alru_capacity (arc_lruPart ?c1)"
           "alru_ghostCapacity l1 = alru_ghostCapacity (arc_lruPart ?c1)" by simp_all
  obtain h2 v2 f2 where g2: "ArcLfuPart_get (arc_lfuPart ?c1) k v = (h2, v2, f2)"
    by (cases "ArcLfuPart_get (arc_lfuPart ?c1) k v") auto
  from g2 alfu_get_caps [of "arc_lfuPart ?c1" k v]
  have f2: "alfu_capacity f2 = alfu_capacity (arc_lfuPart ?c1)"
           "alfu_ghostCapacity f2 = alfu_ghostCapacity (arc_lfuPart ?c1)" by simp_all
  show "alru_capacity (arc_lruPart (snd (snd (ArcCache_get c k out)))) = alru_capacity (arc_lruPart ?c1)"
    using g g2 l1 by (cases hit) (simp_all add: ArcCache_get_def Let_def)
  show "alfu_capacity (arc_lfuPart (snd (snd (ArcCache_get c k out)))) = alfu_capacity (arc_lfuPart ?c1)"
    using g g2 f2 by (cases hit) (simp_all add: ArcCache_get_def Let_def)
  show "alru_ghostCapacity (arc_lruPart (snd (snd (ArcCache_get c k out)))) = alru_ghostCapacity (arc_lruPart ?c1)"
    using g g2 l1 by (cases hit) (simp_all add: ArcCache_get_def Let_def)
  show "alfu_ghostCapacity (arc_lfuPart (snd (snd (ArcCache_get c k out)))) = alfu_ghostCapacity (arc_lfuPart ?c1)"
    using g g2 f2 by (cases hit) (simp_all add: ArcCache_get_def Let_def)
  show "arc_capacity (snd (snd (ArcCache_get c k out))) = arc_capacity ?c1"
    using g g2 by (cases hit) (simp_all add: ArcCache_get_def Let_def)
qed

lemma size_t_inc_small: "n + 1 < 2 ^ 64 \<Longrightarrow> size_t_inc n = n + 1"
  by (simp add: size_t_inc_def)

lemma ArcCache_checkGhostCaches_sum:
  assumes "alru_capacity (arc_lruPart c) + alfu_capacity (arc_lfuPart c) = n" and "n < 2 ^ 64"
  shows "alru_capacity (arc_lruPart (snd (ArcCache_checkGhostCaches c k)))
       + alfu_capacity (arc_lfuPart (snd (ArcCache_checkGhostCaches c k))) = n"
proof -
  let ?a = "alru_capacity (arc_lruPart c)" and ?b = "alfu_capacity (arc_lfuPart c)"
  have 1: "size_t_inc ?a = ?a + 1" if "0 < ?b"
    using that assms by (intro size_t_inc_small) linarith
  have 2: "size_t_inc ?b = ?b + 1" if "0 < ?a"
    using that assms by (intro size_t_inc_small) linarith
  have "fst (alru_capacity (arc_lruPart (snd (ArcCache_checkGhostCaches c k))),
             alfu_capacity (arc_lfuPart (snd (ArcCache_checkGhostCaches c k))))
      + snd (alru_capacity (arc_lruPart (snd (ArcCache_checkGhostCaches c k))),
             alfu_capacity (arc_lfuPart (snd (ArcCache_checkGhostCaches c k)))) = n"
    unfolding ArcCache_checkGhostCaches_caps(4) using assms(1) 1 2 by auto
  then show ?thesis by simp
qed

lemma arc_reach_sum:
  assumes "2 * cap < 2 ^ 64" and "arc_reach cap th c"
  shows "alru_capacity (arc_lruPart c) + alfu_capacity (arc_lfuPart c) = 2 * cap"
  using assms(2)
proof (induction rule: arc_reach.induct)
  case arc_reach_new
  show ?case by (simp add: ArcCache_new_def ArcLruPart_new_def ArcLfuPart_new_def)
next
  case (arc_reach_put c k v)
  from arc_reach_put.IH assms(1) show ?case
    unfolding ArcCache_put_caps by (rule ArcCache_checkGhostCaches_sum)
next
  case (arc_reach_get c k out)
  from arc_reach_get.IH assms(1) show ?case
    unfolding ArcCache_get_caps by (rule ArcCache_checkGhostCaches_sum)
qed

lemma arc_reach_ghostCapacity:
  assumes "arc_reach cap th c"
  shows "alru_ghostCapacity (arc_lruPart c) = cap \<and> alfu_ghostCapacity (arc_lfuPart c) = cap
       \<and> arc_capacity c = cap"
  using assms
proof (induction rule: arc_reach.induct)
  case arc_reach_new
  show ?case by (simp add: ArcCache_new_def ArcLruPart_new_def ArcLfuPart_new_def)
next
  case (arc_reach_put c k v)
  then show ?case by (simp add: ArcCache_put_caps ArcCache_checkGhostCaches_caps)
next
  case (arc_reach_get c k out)
  then show ?case by (simp add: ArcCache_get_caps ArcCache_checkGhostCaches_caps)
qed

text \<open>
  Claim C1.  For an ARC engine built with capacity \<open>cap\<close> (with \<open>2 * cap\<close> in the
  range of \<open>size_t\<close>), in every state reached through \<open>put\<close> and \<open>get\<close> the
  capacities of T1 and T2 add up to \<open>2 * cap\<close>.  In particular, when a key hits a
  ghost list and the sibling part has capacity 0, the rebalance leaves both
  capacities as they are: no reciprocal increase takes place.
\<close>

theorem ArcCache_capacity_conservation:
  assumes "2 * cap < 2 ^ 64" and "arc_reach cap th c"
  shows "alru_capacity (arc_lruPart c) + alfu_capacity (arc_lfuPart c) = 2 * cap
       \<and> (fst (ArcLruPart_checkGhost (arc_lruPart c) k) \<and> alfu_capacity (arc_lfuPart c) = 0 \<longrightarrow>
            alru_capacity (arc_lruPart (snd (ArcCache_checkGhostCaches c k))) = alru_capacity (arc_lruPart c)
          \<and> alfu_capacity (arc_lfuPart (snd (ArcCache_checkGhostCaches c k))) = 0)
       \<and> (\<not> fst (ArcLruPart_checkGhost (arc_lruPart c) k')
            \<and> fst (ArcLfuPart_checkGhost (arc_lfuPart c) k') \<and> alru_capacity (arc_lruPart c) = 0 \<longrightarrow>
            alfu_capacity (arc_lfuPart (snd (ArcCache_checkGhostCaches c k'))) = alfu_capacity (arc_lfuPart c)
          \<and> alru_capacity (arc_lruPart (snd (ArcCache_checkGhostCaches c k'))) = 0)"
proof -
  from assms have 1: "alru_capacity (arc_lruPart c) + alfu_capacity (arc_lfuPart c) = 2 * cap"
    by (rule arc_reach_sum)
  have 2: "fst (ArcLruPart_checkGhost (arc_lruPart c) k) \<and> alfu_capacity (arc_lfuPart c) = 0 \<longrightarrow>
            alru_capacity (arc_lruPart (snd (ArcCache_checkGhostCaches c k))) = alru_capacity (arc_lruPart c)
          \<and> alfu_capacity (arc_lfuPart (snd (ArcCache_checkGhostCaches c k))) = 0"
    using ArcCache_checkGhostCaches_caps(4) [of c k] by (auto split: if_splits)
  have 3: "\<not> fst (ArcLruPart_checkGhost (arc_lruPart c) k')
            \<and> fst (ArcLfuPart_checkGhost (arc_lfuPart c) k') \<and> alru_capacity (arc_lruPart c) = 0 \<longrightarrow>
            alfu_capacity (arc_lfuPart (snd (ArcCache_checkGhostCaches c k'))) = alfu_capacity (arc_lfuPart c)
          \<and> alru_capacity (arc_lruPart (snd (ArcCache_checkGhostCaches c k'))) = 0"
    using ArcCache_checkGhostCaches_caps(4) [of c k'] by (auto split: if_splits)
  from 1 2 3 show ?thesis by (intro conjI)
qed

theorem ArcCache_capacity_conservation_witness:
  "(2::nat) * 1 < 2 ^ 64 \<and> arc_reach 1 2 arc_run_lfu_empty
   \<and> fst (ArcLruPart_checkGhost (arc_lruPart arc_run_lfu_empty) 2)
   \<and> alfu_capacity (arc_lfuPart arc_run_lfu_empty) = 0
   \<and> alru_capacity (arc_lruPart arc_run_lfu_empty) = 2
   \<and> alru_capacity (arc_lruPart (snd (ArcCache_checkGhostCaches arc_run_lfu_empty 2))) = 2
   \<and> (2::nat) * 2 < 2 ^ 64 \<and> arc_reach 2 2 arc_run_lru_empty
   \<and> \<not> fst (ArcLruPart_checkGhost (arc_lruPart arc_run_lru_empty) 5)
   \<and> fst (ArcLfuPart_checkGhost (arc_lfuPart arc_run_lru_empty) 5)
   \<and> alru_capacity (arc_lruPart arc_run_lru_empty) = 0
   \<and> alfu_capacity (arc_lfuPart arc_run_lru_empty) = 4
   \<and> alfu_capacity (arc_lfuPart (snd (ArcCache_checkGhostCaches arc_run_lru_empty 5))) = 4"
proof -
  have b1: "(2::nat) * 1 < 2 ^ 64" by simp
  have r1: "arc_reach 1 2 arc_run_lfu_empty"
    unfolding arc_run_lfu_empty_def by (intro arc_reach.intros)
  have h1: "fst (ArcLruPart_checkGhost (arc_lruPart arc_run_lfu_empty) 2)" by code_simp
  have z1: "alfu_capacity (arc_lfuPart arc_run_lfu_empty) = 0" by code_simp
  have b2: "(2::nat) * 2 < 2 ^ 64" by simp
  have r2: "arc_reach 2 2 arc_run_lru_empty"
    unfolding arc_run_lru_empty_def by (intro arc_reach.intros)
  have h2: "\<not> fst (ArcLruPart_checkGhost (arc_lruPart arc_run_lru_empty) 5)" by code_simp
  have h3: "fst (ArcLfuPart_checkGhost (arc_lfuPart arc_run_lru_empty) 5)" by code_simp
  have z2: "alru_capacity (arc_lruPart arc_run_lru_empty) = 0" by code_simp
  from ArcCache_capacity_conservation [OF b1 r1, of 2 2] h1 z1
  have c1: "alru_capacity (arc_lruPart arc_run_lfu_empty) = 2"
    "alru_capacity (arc_lruPart (snd (ArcCache_checkGhostCaches arc_run_lfu_empty 2))) = 2"
    by simp_all
  from ArcCache_capacity_conservation [OF b2 r2, of 5 5] h2 h3 z2
  have c2: "alfu_capacity (arc_lfuPart arc_run_lru_empty) = 4"
    "alfu_capacity (arc_lfuPart (snd (ArcCache_checkGhostCaches arc_run_lru_empty 5))) = 4"
    by simp_all
  from b1 r1 h1 z1 c1 b2 r2 h2 h3 z2 c2 show ?thesis by (intro conjI)
qed

text \<open>
  Claim C4, as the code has it.  The ghost capacity of each part is the capacity the
  part was built with, in every state the engine reaches: the constructor sets it to
  the initial resident capacity, and \<open>increaseCapacity\<close> and \<open>decreaseCapacity\<close>
  change the resident capacity only.
\<close>

theorem ArcCache_ghostCapacity_fixed:
  assumes "arc_reach cap th c"
  shows "alru_ghostCapacity (arc_lruPart c) = cap \<and> alfu_ghostCapacity (arc_lfuPart c) = cap"
  using arc_reach_ghostCapacity [OF assms] by simp

theorem ArcCache_ghostCapacity_fixed_witness:
  "arc_reach 2 2 arc_run_b1_hit
   \<and> alru_ghostCapacity (arc_lruPart arc_run_b1_hit) = 2
   \<and> alfu_ghostCapacity (arc_lfuPart arc_run_b1_hit) = 2"
proof -
  have r: "arc_reach 2 2 arc_run_b1_hit"
    unfolding arc_run_b1_hit_def by (intro arc_reach.intros)
  from r ArcCache_ghostCapacity_fixed [OF r] show ?thesis by simp
qed

theorem ArcCache_ghostCapacity_differs:
  "alru_capacity (arc_lruPart arc_run_b1_hit) = 3
   \<and> alru_ghostCapacity (arc_lruPart arc_run_b1_hit) = 2
   \<and> alfu_capacity (arc_lfuPart arc_run_b1_hit) = 1
   \<and> alfu_ghostCapacity (arc_lfuPart arc_run_b1_hit) = 2"
  by code_simp

section \<open>Properties of the LFU engine\<close>

lemma map_of_lfu_unlink: "map_of (lfu_unlink k fl) f = map_option (removeAll k) (map_of fl f)"
  by (induction fl) (auto simp: lfu_unlink_def)

lemma fst_lfu_unlink: "map fst (lfu_unlink k fl) = map fst fl"
  by (induction fl) (auto simp: lfu_unlink_def)

lemma lfu_bucket_unlink: "lfu_bucket (lfu_unlink k fl) f = removeAll k (lfu_bucket fl f)"
  by (simp add: lfu_bucket_def map_of_lfu_unlink split: option.splits)

lemma lfu_bucket_update:
  "lfu_bucket (AList.update f b fl) g = (if g = f then b else lfu_bucket fl g)"
  by (simp add: lfu_bucket_def update_conv')

lemma lfu_bucket_Some: "map_of fl f = Some b \<Longrightarrow> lfu_bucket fl f = b"
  by (simp add: lfu_bucket_def)

lemma lfu_bucket_mem: "k \<in> set (lfu_bucket fl f) \<Longrightarrow> \<exists>b. map_of fl f = Some b \<and> k \<in> set b"
  by (cases "map_of fl f") (simp_all add: lfu_bucket_def)

lemma lfu_bucket_distinct:
  "(\<forall>f b. map_of fl f = Some b \<longrightarrow> distinct b) \<Longrightarrow> distinct (lfu_bucket fl f)"
  by (cases "map_of fl f") (simp_all add: lfu_bucket_def)

lemma lfu_wf_rebucket:
  assumes wf: "lfu_wf s" and node': "f_freq node' = f'"
  shows "lfu_wf (LFUCache_addToFreqList
           (s\<lparr>lfu_freqToFreqList := lfu_unlink k (lfu_freqToFreqList s),
              lfu_nodeMap := AList.update k node' (lfu_nodeMap s)\<rparr>) k node')"
proof -
  let ?fl = "lfu_freqToFreqList s" and ?nm = "lfu_nodeMap s"
  let ?fl3 = "AList.update f' (lfu_bucket (lfu_unlink k ?fl) f' @ [k]) (lfu_unlink k ?fl)"
  let ?nm3 = "AList.update k node' ?nm"
  from wf have d1: "distinct (map fst ?nm)" and d2: "distinct (map fst ?fl)"
    and i3: "\<And>k n. map_of ?nm k = Some n \<Longrightarrow> k \<in> set (lfu_bucket ?fl (f_freq n))"
    and i4: "\<And>f b k. map_of ?fl f = Some b \<Longrightarrow> k \<in> set b \<Longrightarrow> \<exists>n. map_of ?nm k = Some n \<and> f_freq n = f"
    and i5: "\<And>f b. map_of ?fl f = Some b \<Longrightarrow> distinct b"
    unfolding lfu_wf_def by blast+
  have b3: "lfu_bucket ?fl3 g = (if g = f' then removeAll k (lfu_bucket ?fl f') @ [k]
                                 else removeAll k (lfu_bucket ?fl g))" for g
    by (simp add: lfu_bucket_update lfu_bucket_unlink)
  have m3: "map_of ?fl3 g = (if g = f' then Some (removeAll k (lfu_bucket ?fl f') @ [k])
                             else map_option (removeAll k) (map_of ?fl g))" for g
    by (simp add: update_conv' map_of_lfu_unlink lfu_bucket_unlink)
  have n3: "map_of ?nm3 k2 = (if k2 = k then Some node' else map_of ?nm k2)" for k2
    by (simp add: update_conv')
  have c1: "distinct (map fst ?nm3)" using d1 by (rule distinct_update)
  have c2: "distinct (map fst ?fl3)" using d2 by (intro distinct_update) (simp add: fst_lfu_unlink)
  have c3: "k2 \<in> set (lfu_bucket ?fl3 (f_freq n2))" if "map_of ?nm3 k2 = Some n2" for k2 n2
  proof (cases "k2 = k")
    case True
    with that node' show ?thesis by (simp add: n3 b3)
  next
    case False
    with that have "k2 \<in> set (lfu_bucket ?fl (f_freq n2))" by (simp add: n3 i3)
    with False show ?thesis by (auto simp: b3)
  qed
  have c4: "\<exists>n. map_of ?nm3 k2 = Some n \<and> f_freq n = g"
    if "map_of ?fl3 g = Some b" and "k2 \<in> set b" for g b k2
  proof (cases "k2 = k")
    case True
    have "g = f'"
    proof (rule ccontr)
      assume "g \<noteq> f'"
      with that(1) obtain b0 where "b = removeAll k b0" by (auto simp: m3)
      with that(2) True show False by simp
    qed
    with True node' show ?thesis by (simp add: n3)
  next
    case False
    have "k2 \<in> set (lfu_bucket ?fl g)"
    proof (cases "g = f'")
      case True
      with that False show ?thesis by (auto simp: m3)
    next
      case g: False
      with that obtain b0 where "map_of ?fl g = Some b0" and "b = removeAll k b0" by (auto simp: m3)
      with that(2) show ?thesis by (simp add: lfu_bucket_Some)
    qed
    then obtain b0 where "map_of ?fl g = Some b0" and "k2 \<in> set b0"
      by (auto dest: lfu_bucket_mem)
    then have "\<exists>n. map_of ?nm k2 = Some n \<and> f_freq n = g" by (rule i4)
    with False show ?thesis by (simp add: n3)
  qed
  have c5: "distinct b" if "map_of ?fl3 g = Some b" for g b
  proof (cases "g = f'")
    case True
    have "distinct (lfu_bucket ?fl f')" using i5 by (intro lfu_bucket_distinct) blast
    with that True show ?thesis by (auto simp: m3 distinct_removeAll)
  next
    case False
    with that obtain b0 where "map_of ?fl g = Some b0" and "b = removeAll k b0" by (auto simp: m3)
    with i5 [of g b0] show ?thesis by (simp add: distinct_removeAll)
  qed
  have e: "LFUCache_addToFreqList
           (s\<lparr>lfu_freqToFreqList := lfu_unlink k ?fl, lfu_nodeMap := ?nm3\<rparr>) k node'
        = s\<lparr>lfu_freqToFreqList := ?fl3, lfu_nodeMap := ?nm3\<rparr>"
    by (simp add: LFUCache_addToFreqList_def node')
  show ?thesis
    unfolding e lfu_wf_def using c1 c2 c3 c4 c5 by (simp del: map_of_eq_Some_iff)
qed


lemma lfu_wfD:
  assumes "lfu_wf s"
  shows "distinct (map fst (lfu_nodeMap s))" and "distinct (map fst (lfu_freqToFreqList s))"
    and "\<And>k n. map_of (lfu_nodeMap s) k = Some n \<Longrightarrow> k \<in> set (lfu_bucket (lfu_freqToFreqList s) (f_freq n))"
    and "\<And>f b k. map_of (lfu_freqToFreqList s) f = Some b \<Longrightarrow> k \<in> set b
           \<Longrightarrow> \<exists>n. map_of (lfu_nodeMap s) k = Some n \<and> f_freq n = f"
    and "\<And>f b. map_of (lfu_freqToFreqList s) f = Some b \<Longrightarrow> distinct b"
  using assms unfolding lfu_wf_def by blast+

lemma lfu_wf_fields:
  assumes "lfu_nodeMap s' = lfu_nodeMap s" and "lfu_freqToFreqList s' = lfu_freqToFreqList s"
  shows "lfu_wf s' = lfu_wf s"
  by (simp add: lfu_wf_def assms)

lemma lfu_removeFromFreqList_Some:
  assumes "lfu_wf s" and "map_of (lfu_nodeMap s) k = Some node"
  shows "LFUCache_removeFromFreqList s k node
       = Some (s\<lparr>lfu_freqToFreqList := lfu_unlink k (lfu_freqToFreqList s)\<rparr>)"
proof -
  from lfu_wfD(3) [OF assms] obtain b where "map_of (lfu_freqToFreqList s) (f_freq node) = Some b"
    by (auto dest: lfu_bucket_mem)
  then show ?thesis by (simp add: LFUCache_removeFromFreqList_def)
qed

text \<open>Changing the value of a node keeps the structure.\<close>

lemma lfu_wf_set_value:
  assumes "lfu_wf s" and "map_of (lfu_nodeMap s) k = Some node"
  shows "lfu_wf (s\<lparr>lfu_nodeMap := AList.update k (node\<lparr>f_value := v\<rparr>) (lfu_nodeMap s)\<rparr>)"
proof -
  note d = lfu_wfD [OF assms(1)]
  have n: "map_of (AList.update k (node\<lparr>f_value := v\<rparr>) (lfu_nodeMap s)) k2
         = (if k2 = k then Some (node\<lparr>f_value := v\<rparr>) else map_of (lfu_nodeMap s) k2)" for k2
    by (simp add: update_conv')
  have c1: "distinct (map fst (AList.update k (node\<lparr>f_value := v\<rparr>) (lfu_nodeMap s)))"
    using d(1) by (rule distinct_update)
  have c3: "k2 \<in> set (lfu_bucket (lfu_freqToFreqList s) (f_freq n2))"
    if "map_of (AList.update k (node\<lparr>f_value := v\<rparr>) (lfu_nodeMap s)) k2 = Some n2" for k2 n2
    using that d(3) [of k2 n2] d(3) [OF assms(2)] by (auto simp: n split: if_splits)
  have c4: "\<exists>n. map_of (AList.update k (node\<lparr>f_value := v\<rparr>) (lfu_nodeMap s)) k2 = Some n \<and> f_freq n = f"
    if "map_of (lfu_freqToFreqList s) f = Some b" and "k2 \<in> set b" for f b k2
    using d(4) [OF that] assms(2) by (auto simp: n)
  show ?thesis
    unfolding lfu_wf_def using c1 d(2) c3 c4 d(5) by (simp del: map_of_eq_Some_iff)
qed


lemma map_fst_update_present:
  "k \<in> fst ` set al \<Longrightarrow> map fst (AList.update k v al) = map fst al"
  by (induction al) auto

lemma lfu_aged_alt:
  "n\<lparr>f_freq := (if f_freq n - m sdiv 2 < 1 then 1 else f_freq n - m sdiv 2)\<rparr> = lfu_aged m n"
  by (simp add: lfu_aged_def max_def)

lemma lfu_age_nodes_spec:
  assumes "lfu_wf s" and "distinct (map fst ns)"
    and "\<forall>(k, n) \<in> set ns. map_of (lfu_nodeMap s) k = Some n"
  shows "\<exists>nm fl. lfu_age_nodes ns s = Some (s\<lparr>lfu_nodeMap := nm, lfu_freqToFreqList := fl\<rparr>)
        \<and> lfu_wf (s\<lparr>lfu_nodeMap := nm, lfu_freqToFreqList := fl\<rparr>)
        \<and> map fst nm = map fst (lfu_nodeMap s)
        \<and> (\<forall>k. map_of nm k =
              (if k \<in> fst ` set ns
               then map_option (lfu_aged (lfu_maxAverageNum s)) (map_of (lfu_nodeMap s) k)
               else map_of (lfu_nodeMap s) k))"
  using assms
proof (induction ns arbitrary: s)
  case Nil
  have "s\<lparr>lfu_nodeMap := lfu_nodeMap s, lfu_freqToFreqList := lfu_freqToFreqList s\<rparr> = s" by simp
  with Nil.prems(1) show ?case
    by (intro exI [of _ "lfu_nodeMap s"] exI [of _ "lfu_freqToFreqList s"]) simp
next
  case (Cons e ns)
  obtain k node where e: "e = (k, node)" by (cases e)
  let ?node' = "lfu_aged (lfu_maxAverageNum s) node"
  let ?s3 = "LFUCache_addToFreqList
           (s\<lparr>lfu_freqToFreqList := lfu_unlink k (lfu_freqToFreqList s),
              lfu_nodeMap := AList.update k ?node' (lfu_nodeMap s)\<rparr>) k ?node'"
  from Cons.prems(3) e have kn: "map_of (lfu_nodeMap s) k = Some node" by simp
  from Cons.prems(1) kn have r: "LFUCache_removeFromFreqList s k node
       = Some (s\<lparr>lfu_freqToFreqList := lfu_unlink k (lfu_freqToFreqList s)\<rparr>)"
    by (rule lfu_removeFromFreqList_Some)
  have step: "lfu_age_nodes (e # ns) s = lfu_age_nodes ns ?s3"
    by (simp add: e r Let_def lfu_aged_alt)
  have wf3: "lfu_wf ?s3" using Cons.prems(1) by (rule lfu_wf_rebucket) simp
  have nm3: "lfu_nodeMap ?s3 = AList.update k ?node' (lfu_nodeMap s)"
    by (simp add: LFUCache_addToFreqList_def)
  have mx3: "lfu_maxAverageNum ?s3 = lfu_maxAverageNum s"
    by (simp add: LFUCache_addToFreqList_def)
  from Cons.prems(2) e have kns: "k \<notin> fst ` set ns" and dns: "distinct (map fst ns)" by auto
  have cur: "\<forall>(k2, n2) \<in> set ns. map_of (lfu_nodeMap ?s3) k2 = Some n2"
  proof (clarify)
    fix k2 n2 assume m: "(k2, n2) \<in> set ns"
    with kns have "k2 \<noteq> k" by force
    moreover from m Cons.prems(3) have "map_of (lfu_nodeMap s) k2 = Some n2" by auto
    ultimately show "map_of (lfu_nodeMap ?s3) k2 = Some n2" by (simp add: nm3 update_conv')
  qed
  from Cons.IH [OF wf3 dns cur] obtain nm fl where
    a: "lfu_age_nodes ns ?s3 = Some (?s3\<lparr>lfu_nodeMap := nm, lfu_freqToFreqList := fl\<rparr>)" and
    w: "lfu_wf (?s3\<lparr>lfu_nodeMap := nm, lfu_freqToFreqList := fl\<rparr>)" and
    f: "map fst nm = map fst (lfu_nodeMap ?s3)" and
    m: "\<forall>k'. map_of nm k' =
              (if k' \<in> fst ` set ns
               then map_option (lfu_aged (lfu_maxAverageNum ?s3)) (map_of (lfu_nodeMap ?s3) k')
               else map_of (lfu_nodeMap ?s3) k')"
    by blast
  have eq: "?s3\<lparr>lfu_nodeMap := nm, lfu_freqToFreqList := fl\<rparr>
          = s\<lparr>lfu_nodeMap := nm, lfu_freqToFreqList := fl\<rparr>"
    by (simp add: LFUCache_addToFreqList_def)
  from kn have "k \<in> fst ` set (lfu_nodeMap s)" by (force dest: map_of_SomeD)
  then have f': "map fst nm = map fst (lfu_nodeMap s)"
    by (simp add: f nm3 map_fst_update_present)
  have m': "map_of nm k' =
              (if k' \<in> fst ` set (e # ns)
               then map_option (lfu_aged (lfu_maxAverageNum s)) (map_of (lfu_nodeMap s) k')
               else map_of (lfu_nodeMap s) k')" for k'
  proof (cases "k' = k")
    case True
    with kns m kn show ?thesis by (simp add: e nm3 update_conv')
  next
    case False
    with m show ?thesis by (simp add: e nm3 mx3 update_conv')
  qed
  from a w f' m' show ?case
    unfolding step eq
    by (intro exI [of _ nm] exI [of _ fl]) simp
qed


lemma lfu_fold_min:
  fixes fl :: "(int \<times> 'k list) list"
  defines "g \<equiv> (\<lambda>(f, b) m. if b \<noteq> [] then min m f else m) :: int \<times> 'k list \<Rightarrow> int \<Rightarrow> int"
  shows "fold g fl i \<le> i
       \<and> (\<forall>(f, b) \<in> set fl. b \<noteq> [] \<longrightarrow> fold g fl i \<le> f)
       \<and> (fold g fl i = i \<or> (\<exists>(f, b) \<in> set fl. b \<noteq> [] \<and> fold g fl i = f))"
proof (induction fl arbitrary: i)
  case Nil
  show ?case by simp
next
  case (Cons e fl)
  obtain f b where e: "e = (f, b)" by (cases e)
  let ?i = "g e i"
  have i: "?i \<le> i" "b \<noteq> [] \<longrightarrow> ?i \<le> f" "?i = i \<or> (b \<noteq> [] \<and> ?i = f)"
    by (auto simp: g_def e min_def)
  from Cons.IH [of ?i] have
    1: "fold g fl ?i \<le> ?i" and
    2: "\<forall>(f, b) \<in> set fl. b \<noteq> [] \<longrightarrow> fold g fl ?i \<le> f" and
    3: "fold g fl ?i = ?i \<or> (\<exists>(f, b) \<in> set fl. b \<noteq> [] \<and> fold g fl ?i = f)"
    by blast+
  have a: "fold g (e # fl) i \<le> i" using 1 i(1) by simp
  have b: "\<forall>(f, b) \<in> set (e # fl). b \<noteq> [] \<longrightarrow> fold g (e # fl) i \<le> f"
    using 1 2 i(2) by (auto simp: e)
  have c: "fold g (e # fl) i = i \<or> (\<exists>(f, b) \<in> set (e # fl). b \<noteq> [] \<and> fold g (e # fl) i = f)"
    using 3 i(3) by (auto simp: e)
  from a b c show ?case by blast
qed

lemma lfu_least_nonempty_Some:
  "lfu_least_nonempty s = Some m \<longleftrightarrow>
     (\<exists>b. (m, b) \<in> set (lfu_freqToFreqList s) \<and> b \<noteq> [])
     \<and> (\<forall>(f, b) \<in> set (lfu_freqToFreqList s). b \<noteq> [] \<longrightarrow> m \<le> f)"
proof -
  let ?fs = "map fst (filter (\<lambda>(f, b). b \<noteq> []) (lfu_freqToFreqList s))"
  have set: "set ?fs = {f. \<exists>b. (f, b) \<in> set (lfu_freqToFreqList s) \<and> b \<noteq> []}"
    by force
  show ?thesis
  proof (cases ?fs)
    case Nil
    then have "set ?fs = {}" by simp
    then have "{f. \<exists>b. (f, b) \<in> set (lfu_freqToFreqList s) \<and> b \<noteq> []} = {}"
      by (simp only: set)
    then have "\<not> (\<exists>b. (m, b) \<in> set (lfu_freqToFreqList s) \<and> b \<noteq> [])" by blast
    with Nil show ?thesis by (simp add: lfu_least_nonempty_def)
  next
    case (Cons f fs)
    have "fold min fs f = Min (set (f # fs))" by (simp only: Min.set_eq_fold)
    with Cons have l: "lfu_least_nonempty s = Some (Min (set ?fs))"
      by (simp add: lfu_least_nonempty_def)
    from Cons have ne: "set ?fs \<noteq> {}" by simp
    have "Min (set ?fs) = m \<longleftrightarrow> m \<in> set ?fs \<and> (\<forall>f \<in> set ?fs. m \<le> f)"
      using ne by (intro Min_eq_iff) simp_all
    also have "\<dots> \<longleftrightarrow> (\<exists>b. (m, b) \<in> set (lfu_freqToFreqList s) \<and> b \<noteq> [])
     \<and> (\<forall>(f, b) \<in> set (lfu_freqToFreqList s). b \<noteq> [] \<longrightarrow> m \<le> f)"
      unfolding set by blast
    finally show ?thesis by (simp add: l)
  qed
qed

text \<open>Under the structural invariant the non-empty lists are those of the frequencies
  of the indexed nodes.\<close>

lemma lfu_wf_nonempty_bucket:
  assumes "lfu_wf s"
  shows "(\<exists>b. (f, b) \<in> set (lfu_freqToFreqList s) \<and> b \<noteq> [])
     \<longleftrightarrow> (\<exists>k n. map_of (lfu_nodeMap s) k = Some n \<and> f_freq n = f)"
proof
  assume "\<exists>b. (f, b) \<in> set (lfu_freqToFreqList s) \<and> b \<noteq> []"
  then obtain b where fb: "(f, b) \<in> set (lfu_freqToFreqList s)" and "b \<noteq> []" by blast
  then obtain k where "k \<in> set b" by (cases b) auto
  note \<open>(f, b) \<in> set (lfu_freqToFreqList s)\<close> this
  from fb lfu_wfD(2) [OF assms] have "map_of (lfu_freqToFreqList s) f = Some b" by simp
  from lfu_wfD(4) [OF assms this \<open>k \<in> set b\<close>]
  show "\<exists>k n. map_of (lfu_nodeMap s) k = Some n \<and> f_freq n = f" by blast
next
  assume "\<exists>k n. map_of (lfu_nodeMap s) k = Some n \<and> f_freq n = f"
  then obtain k n where "map_of (lfu_nodeMap s) k = Some n" and "f_freq n = f" by blast
  with lfu_wfD(3) [OF assms] have "k \<in> set (lfu_bucket (lfu_freqToFreqList s) f)" by blast
  then obtain b where "map_of (lfu_freqToFreqList s) f = Some b" and "k \<in> set b"
    by (auto dest: lfu_bucket_mem)
  then have "(f, b) \<in> set (lfu_freqToFreqList s) \<and> b \<noteq> []" by (auto dest: map_of_SomeD)
  then show "\<exists>b. (f, b) \<in> set (lfu_freqToFreqList s) \<and> b \<noteq> []" ..
qed

lemma lfu_least_nonempty_wf:
  assumes "lfu_wf s"
  shows "lfu_least_nonempty s = Some m \<longleftrightarrow>
     (\<exists>k n. map_of (lfu_nodeMap s) k = Some n \<and> f_freq n = m)
     \<and> (\<forall>k n. map_of (lfu_nodeMap s) k = Some n \<longrightarrow> m \<le> f_freq n)"
proof -
  have "(\<forall>(f, b) \<in> set (lfu_freqToFreqList s). b \<noteq> [] \<longrightarrow> m \<le> f)
    \<longleftrightarrow> (\<forall>f. (\<exists>b. (f, b) \<in> set (lfu_freqToFreqList s) \<and> b \<noteq> []) \<longrightarrow> m \<le> f)"
    by blast
  also have "\<dots> \<longleftrightarrow> (\<forall>f. (\<exists>k n. map_of (lfu_nodeMap s) k = Some n \<and> f_freq n = f) \<longrightarrow> m \<le> f)"
    by (simp only: lfu_wf_nonempty_bucket [OF assms])
  also have "\<dots> \<longleftrightarrow> (\<forall>k n. map_of (lfu_nodeMap s) k = Some n \<longrightarrow> m \<le> f_freq n)"
    by blast
  finally show ?thesis
    by (simp only: lfu_least_nonempty_Some lfu_wf_nonempty_bucket [OF assms])
qed

lemma lfu_updateMinFreq_fields [simp]:
  "lfu_nodeMap (LFUCache_updateMinFreq s) = lfu_nodeMap s"
  "lfu_freqToFreqList (LFUCache_updateMinFreq s) = lfu_freqToFreqList s"
  "lfu_maxAverageNum (LFUCache_updateMinFreq s) = lfu_maxAverageNum s"
  "lfu_capacity (LFUCache_updateMinFreq s) = lfu_capacity s"
  "lfu_sentinelKey (LFUCache_updateMinFreq s) = lfu_sentinelKey s"
  by (simp_all add: LFUCache_updateMinFreq_def Let_def)

lemma lfu_updateMinFreq_least:
  assumes "lfu_wf s" and "lfu_nodeMap s \<noteq> []" and "lfu_in_range s"
  shows "lfu_least_nonempty (LFUCache_updateMinFreq s) = Some (lfu_minFreq (LFUCache_updateMinFreq s))"
proof -
  define g where "g = ((\<lambda>(f, b) m. if b \<noteq> [] then min m f else m) :: int \<times> 'a list \<Rightarrow> int \<Rightarrow> int)"
  define m0 where "m0 = fold g (lfu_freqToFreqList s) INT_MAX"
  from lfu_fold_min [of "lfu_freqToFreqList s" INT_MAX] have
    2: "\<forall>(f, b) \<in> set (lfu_freqToFreqList s). b \<noteq> [] \<longrightarrow> m0 \<le> f" and
    3: "m0 = INT_MAX \<or> (\<exists>(f, b) \<in> set (lfu_freqToFreqList s). b \<noteq> [] \<and> m0 = f)"
    unfolding m0_def g_def by blast+
  from assms(2) obtain k n where kn: "(k, n) \<in> set (lfu_nodeMap s)" by (cases "lfu_nodeMap s") auto
  with lfu_wfD(1) [OF assms(1)] have "map_of (lfu_nodeMap s) k = Some n" by simp
  then have "\<exists>b. (f_freq n, b) \<in> set (lfu_freqToFreqList s) \<and> b \<noteq> []"
    unfolding lfu_wf_nonempty_bucket [OF assms(1)] by blast
  with 2 have "m0 \<le> f_freq n" by blast
  moreover from kn assms(3) have "f_freq n < INT_MAX" by (auto simp: lfu_in_range_def)
  ultimately have ne: "m0 \<noteq> INT_MAX" by simp
  with 3 have "\<exists>b. (m0, b) \<in> set (lfu_freqToFreqList s) \<and> b \<noteq> []" by blast
  with 2 have "lfu_least_nonempty s = Some m0" unfolding lfu_least_nonempty_Some by blast
  moreover have "lfu_minFreq (LFUCache_updateMinFreq s) = m0"
    using ne by (simp add: LFUCache_updateMinFreq_def Let_def m0_def g_def)
  moreover have "lfu_least_nonempty (LFUCache_updateMinFreq s) = lfu_least_nonempty s"
    by (simp add: lfu_least_nonempty_def)
  ultimately show ?thesis by simp
qed


lemma lfu_handleOver_spec:
  assumes "lfu_wf s" and "lfu_nodeMap s \<noteq> []"
  shows "\<exists>s'. LFUCache_handleOverMaxAverageNum s = Some s' \<and> lfu_wf s'
        \<and> map fst (lfu_nodeMap s') = map fst (lfu_nodeMap s)
        \<and> (\<forall>k. map_of (lfu_nodeMap s') k
                = map_option (lfu_aged (lfu_maxAverageNum s)) (map_of (lfu_nodeMap s) k))
        \<and> (lfu_in_range s' \<longrightarrow> lfu_least_nonempty s' = Some (lfu_minFreq s'))
        \<and> lfu_maxAverageNum s' = lfu_maxAverageNum s \<and> lfu_capacity s' = lfu_capacity s
        \<and> lfu_sentinelKey s' = lfu_sentinelKey s"
proof -
  have cur: "\<forall>(k, n) \<in> set (lfu_nodeMap s). map_of (lfu_nodeMap s) k = Some n"
    using lfu_wfD(1) [OF assms(1)] by auto
  from lfu_age_nodes_spec [OF assms(1) lfu_wfD(1) [OF assms(1)] cur]
  obtain nm fl where
    a: "lfu_age_nodes (lfu_nodeMap s) s = Some (s\<lparr>lfu_nodeMap := nm, lfu_freqToFreqList := fl\<rparr>)" and
    w: "lfu_wf (s\<lparr>lfu_nodeMap := nm, lfu_freqToFreqList := fl\<rparr>)" and
    f: "map fst nm = map fst (lfu_nodeMap s)" and
    m: "\<forall>k. map_of nm k =
              (if k \<in> fst ` set (lfu_nodeMap s)
               then map_option (lfu_aged (lfu_maxAverageNum s)) (map_of (lfu_nodeMap s) k)
               else map_of (lfu_nodeMap s) k)"
    by blast
  have m': "map_of nm k = map_option (lfu_aged (lfu_maxAverageNum s)) (map_of (lfu_nodeMap s) k)" for k
  proof (cases "k \<in> fst ` set (lfu_nodeMap s)")
    case True
    with m show ?thesis by simp
  next
    case False
    then have "map_of (lfu_nodeMap s) k = None" by (simp add: map_of_eq_None_iff)
    with False m show ?thesis by simp
  qed
  define t where "t = lfu_curTotalNum s - (lfu_maxAverageNum s sdiv 2) * int (length (lfu_nodeMap s))"
  define s1 where "s1 = s\<lparr>lfu_nodeMap := nm, lfu_freqToFreqList := fl, lfu_curTotalNum := t,
      lfu_curAverageNum := t sdiv int (length (lfu_nodeMap s))\<rparr>"
  have h: "LFUCache_handleOverMaxAverageNum s = Some (LFUCache_updateMinFreq s1)"
    using assms(2) by (simp add: LFUCache_handleOverMaxAverageNum_def a Let_def s1_def t_def)
  have "lfu_wf s1 = lfu_wf (s\<lparr>lfu_nodeMap := nm, lfu_freqToFreqList := fl\<rparr>)"
    by (rule lfu_wf_fields) (simp_all add: s1_def)
  with w have w1: "lfu_wf s1" by simp
  from f assms(2) have ne: "lfu_nodeMap s1 \<noteq> []" by (auto simp: s1_def)
  have "lfu_wf (LFUCache_updateMinFreq s1) = lfu_wf s1"
    by (rule lfu_wf_fields) simp_all
  with w1 have w2: "lfu_wf (LFUCache_updateMinFreq s1)" by simp
  have r: "lfu_least_nonempty (LFUCache_updateMinFreq s1) = Some (lfu_minFreq (LFUCache_updateMinFreq s1))"
    if "lfu_in_range (LFUCache_updateMinFreq s1)"
  proof -
    from that have "lfu_in_range s1" by (simp add: lfu_in_range_def)
    with w1 ne show ?thesis by (rule lfu_updateMinFreq_least)
  qed
  show ?thesis
    unfolding h using w2 f m' r by (simp add: s1_def)
qed

lemma lfu_addFreqNum_spec:
  assumes "lfu_wf s" and "lfu_nodeMap s \<noteq> []"
  shows "\<exists>s'. LFUCache_addFreqNum s = Some s' \<and> lfu_wf s'
        \<and> map fst (lfu_nodeMap s') = map fst (lfu_nodeMap s)
        \<and> (if lfu_maxAverageNum s < lfu_average (lfu_curTotalNum s + 1) (length (lfu_nodeMap s))
            then (\<forall>k. map_of (lfu_nodeMap s') k
                    = map_option (lfu_aged (lfu_maxAverageNum s)) (map_of (lfu_nodeMap s) k))
                 \<and> (lfu_in_range s' \<longrightarrow> lfu_least_nonempty s' = Some (lfu_minFreq s'))
            else lfu_nodeMap s' = lfu_nodeMap s \<and> lfu_freqToFreqList s' = lfu_freqToFreqList s
                 \<and> lfu_minFreq s' = lfu_minFreq s)
        \<and> lfu_maxAverageNum s' = lfu_maxAverageNum s \<and> lfu_capacity s' = lfu_capacity s
        \<and> lfu_sentinelKey s' = lfu_sentinelKey s"
proof -
  define s1 where "s1 = s\<lparr>lfu_curTotalNum := lfu_curTotalNum s + 1,
      lfu_curAverageNum := lfu_average (lfu_curTotalNum s + 1) (length (lfu_nodeMap s))\<rparr>"
  have "lfu_wf s1 = lfu_wf s" by (rule lfu_wf_fields) (simp_all add: s1_def)
  with assms(1) have w1: "lfu_wf s1" by simp
  have ne1: "lfu_nodeMap s1 \<noteq> []" using assms(2) by (simp add: s1_def)
  show ?thesis
  proof (cases "lfu_maxAverageNum s < lfu_average (lfu_curTotalNum s + 1) (length (lfu_nodeMap s))")
    case True
    then have e: "LFUCache_addFreqNum s = LFUCache_handleOverMaxAverageNum s1"
      by (simp add: LFUCache_addFreqNum_def Let_def s1_def)
    from lfu_handleOver_spec [OF w1 ne1] True show ?thesis
      unfolding e by (simp add: s1_def)
  next
    case False
    then have e: "LFUCache_addFreqNum s = Some s1"
      by (simp add: LFUCache_addFreqNum_def Let_def s1_def)
    from w1 False show ?thesis unfolding e by (simp add: s1_def)
  qed
qed


text \<open>The state of \<open>getInternal\<close> just before \<open>addFreqNum\<close>.\<close>

lemma lfu_getInternal_unfold:
  assumes wf: "lfu_wf s" and kn: "map_of (lfu_nodeMap s) k = Some node"
  defines "node' \<equiv> node\<lparr>f_freq := f_freq node + 1\<rparr>"
  defines "s3 \<equiv> LFUCache_addToFreqList
           (s\<lparr>lfu_freqToFreqList := lfu_unlink k (lfu_freqToFreqList s),
              lfu_nodeMap := AList.update k node' (lfu_nodeMap s)\<rparr>) k node'"
  defines "s4 \<equiv> (if lfu_minFreq s = f_freq node
                      \<and> removeAll k (lfu_bucket (lfu_freqToFreqList s) (f_freq node)) = []
                  then s3\<lparr>lfu_minFreq := lfu_minFreq s + 1\<rparr> else s3)"
  shows "LFUCache_getInternal s k node
       = (case LFUCache_addFreqNum s4 of None \<Rightarrow> None | Some s5 \<Rightarrow> Some (f_value node, s5))"
    and "lfu_wf s4"
    and "lfu_nodeMap s4 = AList.update k node' (lfu_nodeMap s)"
    and "lfu_maxAverageNum s4 = lfu_maxAverageNum s \<and> lfu_capacity s4 = lfu_capacity s
         \<and> lfu_sentinelKey s4 = lfu_sentinelKey s"
proof -
  from lfu_wfD(3) [OF wf kn] obtain b where b: "map_of (lfu_freqToFreqList s) (f_freq node) = Some b"
    by (auto dest: lfu_bucket_mem)
  have r: "LFUCache_removeFromFreqList s k node
       = Some (s\<lparr>lfu_freqToFreqList := lfu_unlink k (lfu_freqToFreqList s)\<rparr>)"
    using wf kn by (rule lfu_removeFromFreqList_Some)
  have m3: "map_of (lfu_freqToFreqList s3) (f_freq node) = Some (removeAll k b)"
    by (simp add: s3_def LFUCache_addToFreqList_def node'_def update_conv' map_of_lfu_unlink b)
  have mf3: "lfu_minFreq s3 = lfu_minFreq s"
    by (simp add: s3_def LFUCache_addToFreqList_def)
  have f': "f_freq node' - 1 = f_freq node" by (simp add: node'_def)
  have g: "LFUCache_getInternal s k node =
      (case (if lfu_minFreq s3 = f_freq node' - 1
             then (case map_of (lfu_freqToFreqList s3) (f_freq node' - 1) of
                     None \<Rightarrow> None
                   | Some b \<Rightarrow> Some (if b = [] then s3\<lparr>lfu_minFreq := lfu_minFreq s3 + 1\<rparr> else s3))
             else Some s3) of
         None \<Rightarrow> None
       | Some s4 \<Rightarrow> (case LFUCache_addFreqNum s4 of None \<Rightarrow> None | Some s5 \<Rightarrow> Some (f_value node, s5)))"
    unfolding LFUCache_getInternal_def r s3_def node'_def by (simp add: Let_def)
  have "(if lfu_minFreq s3 = f_freq node' - 1
             then (case map_of (lfu_freqToFreqList s3) (f_freq node' - 1) of
                     None \<Rightarrow> None
                   | Some b \<Rightarrow> Some (if b = [] then s3\<lparr>lfu_minFreq := lfu_minFreq s3 + 1\<rparr> else s3))
             else Some s3) = Some s4"
    unfolding f' m3 mf3 s4_def lfu_bucket_Some [OF b] by simp
  then show "LFUCache_getInternal s k node
       = (case LFUCache_addFreqNum s4 of None \<Rightarrow> None | Some s5 \<Rightarrow> Some (f_value node, s5))"
    unfolding g by simp
  have "lfu_wf s3" unfolding s3_def using wf by (rule lfu_wf_rebucket) simp
  moreover have "lfu_wf s4 = lfu_wf s3" by (rule lfu_wf_fields) (simp_all add: s4_def)
  ultimately show "lfu_wf s4" by simp
  show "lfu_nodeMap s4 = AList.update k node' (lfu_nodeMap s)"
    by (simp add: s4_def s3_def LFUCache_addToFreqList_def)
  show "lfu_maxAverageNum s4 = lfu_maxAverageNum s \<and> lfu_capacity s4 = lfu_capacity s
         \<and> lfu_sentinelKey s4 = lfu_sentinelKey s"
    by (simp add: s4_def s3_def LFUCache_addToFreqList_def)
qed

lemma lfu_min_after_promote:
  assumes wf: "lfu_wf s" and kn: "map_of (lfu_nodeMap s) k = Some node"
    and mn: "lfu_least_nonempty s = Some (lfu_minFreq s)"
  defines "node' \<equiv> node\<lparr>f_freq := f_freq node + 1\<rparr>"
  defines "s3 \<equiv> LFUCache_addToFreqList
           (s\<lparr>lfu_freqToFreqList := lfu_unlink k (lfu_freqToFreqList s),
              lfu_nodeMap := AList.update k node' (lfu_nodeMap s)\<rparr>) k node'"
  defines "s4 \<equiv> (if lfu_minFreq s = f_freq node
                      \<and> removeAll k (lfu_bucket (lfu_freqToFreqList s) (f_freq node)) = []
                  then s3\<lparr>lfu_minFreq := lfu_minFreq s + 1\<rparr> else s3)"
  shows "lfu_least_nonempty s4 = Some (lfu_minFreq s4)"
proof -
  let ?A = "map_of (lfu_nodeMap s)" and ?f = "f_freq node" and ?m = "lfu_minFreq s"
  let ?b = "lfu_bucket (lfu_freqToFreqList s) (f_freq node)"
  note u = lfu_getInternal_unfold [OF wf kn]
  have wf4: "lfu_wf s4" using u(2) unfolding s4_def s3_def node'_def .
  have nm4: "lfu_nodeMap s4 = AList.update k node' (lfu_nodeMap s)"
    using u(3) unfolding s4_def s3_def node'_def .
  have A4: "map_of (lfu_nodeMap s4) k2 = (if k2 = k then Some node' else ?A k2)" for k2
    by (simp add: nm4 update_conv')
  from mn obtain k0 n0 where k0: "?A k0 = Some n0" "f_freq n0 = ?m"
    and le: "\<And>k n. ?A k = Some n \<Longrightarrow> ?m \<le> f_freq n"
    unfolding lfu_least_nonempty_wf [OF wf] by blast
  from le [OF kn] have mf: "?m \<le> ?f" .
  have mf3: "lfu_minFreq s3 = ?m" by (simp add: s3_def LFUCache_addToFreqList_def)
  show ?thesis
  proof (cases "?m = ?f \<and> removeAll k ?b = []")
    case True
    then have m4: "lfu_minFreq s4 = ?f + 1" by (simp add: s4_def)
    have "?f + 1 \<le> f_freq n2" if "map_of (lfu_nodeMap s4) k2 = Some n2" for k2 n2
    proof (cases "k2 = k")
      case True
      with that show ?thesis by (auto simp: A4 node'_def)
    next
      case False
      with that have a: "?A k2 = Some n2" by (simp add: A4)
      have "f_freq n2 \<noteq> ?f"
      proof
        assume "f_freq n2 = ?f"
        with lfu_wfD(3) [OF wf a] have "k2 \<in> set ?b" by simp
        with False have "k2 \<in> set (removeAll k ?b)" by simp
        with True show False by simp
      qed
      with le [OF a] True show ?thesis by simp
    qed
    moreover have "map_of (lfu_nodeMap s4) k = Some node' \<and> f_freq node' = ?f + 1"
      by (simp add: A4 node'_def)
    ultimately show ?thesis
      unfolding lfu_least_nonempty_wf [OF wf4] m4 by blast
  next
    case False
    then have m4: "lfu_minFreq s4 = ?m" by (auto simp: s4_def mf3)
    have all: "?m \<le> f_freq n2" if "map_of (lfu_nodeMap s4) k2 = Some n2" for k2 n2
    proof (cases "k2 = k")
      case True
      with that mf show ?thesis by (auto simp: A4 node'_def)
    next
      case False
      with that have "?A k2 = Some n2" by (simp add: A4)
      then show ?thesis by (rule le)
    qed
    have ex: "\<exists>k2 n2. map_of (lfu_nodeMap s4) k2 = Some n2 \<and> f_freq n2 = ?m"
    proof (cases "?m = ?f")
      case True
      with False obtain k2 where k2: "k2 \<in> set (removeAll k ?b)" by (cases "removeAll k ?b") auto
      then have "k2 \<noteq> k" and "k2 \<in> set ?b" by auto
      from lfu_bucket_mem [OF this(2)] obtain b0 where
        "map_of (lfu_freqToFreqList s) ?f = Some b0" and "k2 \<in> set b0" by blast
      from lfu_wfD(4) [OF wf this] obtain n2 where "?A k2 = Some n2" and "f_freq n2 = ?f" by blast
      with \<open>k2 \<noteq> k\<close> True have "map_of (lfu_nodeMap s4) k2 = Some n2 \<and> f_freq n2 = ?m"
        by (simp add: A4)
      then show ?thesis by blast
    next
      case False
      with k0 kn have "k0 \<noteq> k" by auto
      with k0 have "map_of (lfu_nodeMap s4) k0 = Some n0 \<and> f_freq n0 = ?m" by (simp add: A4)
      then show ?thesis by blast
    qed
    from ex all show ?thesis
      unfolding lfu_least_nonempty_wf [OF wf4] m4 by blast
  qed
qed


lemma lfu_least_nonempty_cong:
  "lfu_freqToFreqList s' = lfu_freqToFreqList s \<Longrightarrow> lfu_least_nonempty s' = lfu_least_nonempty s"
  by (simp add: lfu_least_nonempty_def)

lemma lfu_in_range_wf:
  assumes "lfu_wf s"
  shows "lfu_in_range s \<longleftrightarrow> (\<forall>k n. map_of (lfu_nodeMap s) k = Some n \<longrightarrow> f_freq n < INT_MAX)"
  using lfu_wfD(1) [OF assms] by (auto simp: lfu_in_range_def)

lemma lfu_aged_fields [simp]:
  "f_value (lfu_aged m n) = f_value n" "1 \<le> f_freq (lfu_aged m n)"
  by (simp_all add: lfu_aged_def)

lemma lfu_getInternal_spec:
  assumes wf: "lfu_wf s" and kn: "map_of (lfu_nodeMap s) k = Some node"
  shows "\<exists>s'. LFUCache_getInternal s k node = Some (f_value node, s') \<and> lfu_wf s'
        \<and> map fst (lfu_nodeMap s') = map fst (lfu_nodeMap s)
        \<and> (\<forall>k2. map_option f_value (map_of (lfu_nodeMap s') k2)
                = map_option f_value (map_of (lfu_nodeMap s) k2))
        \<and> lfu_maxAverageNum s' = lfu_maxAverageNum s \<and> lfu_capacity s' = lfu_capacity s
        \<and> lfu_sentinelKey s' = lfu_sentinelKey s
        \<and> (lfu_inv s \<and> lfu_in_range s' \<longrightarrow> lfu_inv s')"
proof -
  define node' where "node' = node\<lparr>f_freq := f_freq node + 1\<rparr>"
  define s3 where "s3 = LFUCache_addToFreqList
           (s\<lparr>lfu_freqToFreqList := lfu_unlink k (lfu_freqToFreqList s),
              lfu_nodeMap := AList.update k node' (lfu_nodeMap s)\<rparr>) k node'"
  define s4 where "s4 = (if lfu_minFreq s = f_freq node
                      \<and> removeAll k (lfu_bucket (lfu_freqToFreqList s) (f_freq node)) = []
                  then s3\<lparr>lfu_minFreq := lfu_minFreq s + 1\<rparr> else s3)"
  note u = lfu_getInternal_unfold [OF wf kn, folded node'_def, folded s3_def, folded s4_def]
  have A4: "map_of (lfu_nodeMap s4) k2 = (if k2 = k then Some node' else map_of (lfu_nodeMap s) k2)" for k2
    by (simp add: u(3) update_conv')
  from kn have kin: "k \<in> fst ` set (lfu_nodeMap s)" by (force dest: map_of_SomeD)
  then have f4: "map fst (lfu_nodeMap s4) = map fst (lfu_nodeMap s)"
    by (simp add: u(3) map_fst_update_present)
  with kin have ne4: "lfu_nodeMap s4 \<noteq> []" by auto
  from lfu_addFreqNum_spec [OF u(2) ne4] obtain s5 where
    a: "LFUCache_addFreqNum s4 = Some s5" and w5: "lfu_wf s5" and
    f5: "map fst (lfu_nodeMap s5) = map fst (lfu_nodeMap s4)" and
    c: "if lfu_maxAverageNum s4 < lfu_average (lfu_curTotalNum s4 + 1) (length (lfu_nodeMap s4))
            then (\<forall>k. map_of (lfu_nodeMap s5) k
                    = map_option (lfu_aged (lfu_maxAverageNum s4)) (map_of (lfu_nodeMap s4) k))
                 \<and> (lfu_in_range s5 \<longrightarrow> lfu_least_nonempty s5 = Some (lfu_minFreq s5))
            else lfu_nodeMap s5 = lfu_nodeMap s4 \<and> lfu_freqToFreqList s5 = lfu_freqToFreqList s4
                 \<and> lfu_minFreq s5 = lfu_minFreq s4" and
    fld: "lfu_maxAverageNum s5 = lfu_maxAverageNum s4" "lfu_capacity s5 = lfu_capacity s4"
        "lfu_sentinelKey s5 = lfu_sentinelKey s4"
    by blast
  have g: "LFUCache_getInternal s k node = Some (f_value node, s5)"
    by (simp add: u(1) a)
  have v4: "map_option f_value (map_of (lfu_nodeMap s4) k2) = map_option f_value (map_of (lfu_nodeMap s) k2)" for k2
    using kn by (simp add: A4 node'_def)
  have v5: "map_option f_value (map_of (lfu_nodeMap s5) k2) = map_option f_value (map_of (lfu_nodeMap s4) k2)" for k2
    using c by (auto simp: option.map_comp comp_def split: if_splits)
  from f5 ne4 have ne5: "lfu_nodeMap s5 \<noteq> []" by (metis map_is_Nil_conv)
  have inv5: "lfu_inv s5" if i: "lfu_inv s" and r5: "lfu_in_range s5"
  proof -
    from i have one: "\<And>k n. map_of (lfu_nodeMap s) k = Some n \<Longrightarrow> 1 \<le> f_freq n"
      and mn: "lfu_nodeMap s \<noteq> [] \<longrightarrow> lfu_least_nonempty s = Some (lfu_minFreq s)"
      unfolding lfu_inv_def by blast+
    from kin mn have mn': "lfu_least_nonempty s = Some (lfu_minFreq s)" by auto
    have one4: "1 \<le> f_freq n2" if "map_of (lfu_nodeMap s4) k2 = Some n2" for k2 n2
      using that one [OF kn] one [of k2 n2] by (auto simp: A4 node'_def split: if_splits)
    have one5: "1 \<le> f_freq n2" if "map_of (lfu_nodeMap s5) k2 = Some n2" for k2 n2
    proof (cases "lfu_maxAverageNum s4 < lfu_average (lfu_curTotalNum s4 + 1) (length (lfu_nodeMap s4))")
      case True
      with c that obtain n0 where "n2 = lfu_aged (lfu_maxAverageNum s4) n0" by auto
      then show ?thesis by simp
    next
      case False
      with c that one4 show ?thesis by auto
    qed
    have mn5: "lfu_least_nonempty s5 = Some (lfu_minFreq s5)"
    proof (cases "lfu_maxAverageNum s4 < lfu_average (lfu_curTotalNum s4 + 1) (length (lfu_nodeMap s4))")
      case True
      with c r5 show ?thesis by simp
    next
      case False
      with c have e: "lfu_freqToFreqList s5 = lfu_freqToFreqList s4" "lfu_minFreq s5 = lfu_minFreq s4"
        by simp_all
      from lfu_min_after_promote [OF wf kn mn', folded node'_def, folded s3_def, folded s4_def]
      have "lfu_least_nonempty s4 = Some (lfu_minFreq s4)" .
      with e show ?thesis by (simp add: lfu_least_nonempty_cong [OF e(1)])
    qed
    from w5 r5 one5 mn5 ne5 show ?thesis unfolding lfu_inv_def by blast
  qed
  from g w5 f5 f4 v5 v4 fld u(4) inv5 show ?thesis by simp
qed


lemma lfu_wf_remove:
  assumes "lfu_wf s"
  shows "lfu_wf (s\<lparr>lfu_nodeMap := AList.delete k0 (lfu_nodeMap s),
                   lfu_freqToFreqList := lfu_unlink k0 (lfu_freqToFreqList s)\<rparr>)"
proof -
  note d = lfu_wfD [OF assms]
  let ?nm = "AList.delete k0 (lfu_nodeMap s)" and ?fl = "lfu_unlink k0 (lfu_freqToFreqList s)"
  have n: "map_of ?nm k = (if k = k0 then None else map_of (lfu_nodeMap s) k)" for k
    by (simp add: delete_conv')
  have c1: "distinct (map fst ?nm)" using d(1) by (rule distinct_delete)
  have c2: "distinct (map fst ?fl)" using d(2) by (simp add: fst_lfu_unlink)
  have c3: "k \<in> set (lfu_bucket ?fl (f_freq n'))" if "map_of ?nm k = Some n'" for k n'
  proof -
    from that have "k \<noteq> k0" and "map_of (lfu_nodeMap s) k = Some n'"
      by (auto simp: n split: if_splits)
    with d(3) [of k n'] show ?thesis by (simp add: lfu_bucket_unlink)
  qed
  have c4: "\<exists>n'. map_of ?nm k = Some n' \<and> f_freq n' = f"
    if "map_of ?fl f = Some b" and "k \<in> set b" for f b k
  proof -
    from that obtain b0 where "map_of (lfu_freqToFreqList s) f = Some b0" and "b = removeAll k0 b0"
      by (auto simp: map_of_lfu_unlink)
    with that(2) have "k \<noteq> k0" and "k \<in> set b0" by auto
    with d(4) [OF \<open>map_of (lfu_freqToFreqList s) f = Some b0\<close>, of k] show ?thesis
      by (simp add: n)
  qed
  have c5: "distinct b" if "map_of ?fl f = Some b" for f b
  proof -
    from that obtain b0 where "map_of (lfu_freqToFreqList s) f = Some b0" and "b = removeAll k0 b0"
      by (auto simp: map_of_lfu_unlink)
    with d(5) [of f b0] show ?thesis by (simp add: distinct_removeAll)
  qed
  show ?thesis
    unfolding lfu_wf_def using c1 c2 c3 c4 c5 by (simp del: map_of_eq_Some_iff)
qed

lemma lfu_kickOut_spec:
  assumes wf: "lfu_wf s" and mn: "lfu_least_nonempty s = Some (lfu_minFreq s)"
  shows "\<exists>s' k0 n0. LFUCache_kickOut s = Some s'
        \<and> map_of (lfu_nodeMap s) k0 = Some n0 \<and> f_freq n0 = lfu_minFreq s
        \<and> lfu_nodeMap s' = AList.delete k0 (lfu_nodeMap s)
        \<and> lfu_freqToFreqList s' = lfu_unlink k0 (lfu_freqToFreqList s)
        \<and> lfu_wf s'
        \<and> lfu_maxAverageNum s' = lfu_maxAverageNum s \<and> lfu_capacity s' = lfu_capacity s
        \<and> lfu_sentinelKey s' = lfu_sentinelKey s"
proof -
  from mn obtain b where "(lfu_minFreq s, b) \<in> set (lfu_freqToFreqList s)" and "b \<noteq> []"
    unfolding lfu_least_nonempty_Some by blast
  with lfu_wfD(2) [OF wf] obtain k0 rest where
    b: "map_of (lfu_freqToFreqList s) (lfu_minFreq s) = Some (k0 # rest)"
    by (cases b) auto
  from lfu_wfD(4) [OF wf b, of k0] obtain n0 where
    n0: "map_of (lfu_nodeMap s) k0 = Some n0" "f_freq n0 = lfu_minFreq s" by auto
  define s2 where "s2 = s\<lparr>lfu_nodeMap := AList.delete k0 (lfu_nodeMap s),
                   lfu_freqToFreqList := lfu_unlink k0 (lfu_freqToFreqList s)\<rparr>"
  have k: "LFUCache_kickOut s = Some (LFUCache_decreaseFreqNum s2 (f_freq n0))"
    by (simp add: LFUCache_kickOut_def b n0 Let_def LFUCache_removeFromFreqList_def s2_def)
  have "lfu_wf s2" unfolding s2_def using wf by (rule lfu_wf_remove)
  moreover have "lfu_wf (LFUCache_decreaseFreqNum s2 (f_freq n0)) = lfu_wf s2"
    by (rule lfu_wf_fields) (simp_all add: LFUCache_decreaseFreqNum_def Let_def)
  ultimately have "lfu_wf (LFUCache_decreaseFreqNum s2 (f_freq n0))" by simp
  with n0 show ?thesis
    unfolding k
    by (intro exI [of _ "LFUCache_decreaseFreqNum s2 (f_freq n0)"] exI [of _ k0] exI [of _ n0])
       (simp add: LFUCache_decreaseFreqNum_def Let_def s2_def)
qed

lemma lfu_unlink_absent:
  assumes "lfu_wf s" and "map_of (lfu_nodeMap s) k = None"
  shows "lfu_unlink k (lfu_freqToFreqList s) = lfu_freqToFreqList s"
proof -
  have "k \<notin> set b" if "(f, b) \<in> set (lfu_freqToFreqList s)" for f b
  proof
    assume "k \<in> set b"
    moreover from that lfu_wfD(2) [OF assms(1)] have "map_of (lfu_freqToFreqList s) f = Some b" by simp
    ultimately have "\<exists>n. map_of (lfu_nodeMap s) k = Some n \<and> f_freq n = f"
      using lfu_wfD(4) [OF assms(1)] by blast
    with assms(2) show False by simp
  qed
  then have "map (\<lambda>(f, b). (f, removeAll k b)) (lfu_freqToFreqList s) = map (\<lambda>x. x) (lfu_freqToFreqList s)"
    by (intro map_cong) auto
  then show ?thesis by (simp add: lfu_unlink_def)
qed

lemma sdiv_two_nonneg: "0 \<le> (m::int) \<Longrightarrow> 0 \<le> m sdiv 2"
  by (simp add: signed_divide_int_def sgn_if)

lemma lfu_aged_fresh:
  "0 \<le> m \<Longrightarrow> lfu_aged m \<lparr>f_freq = 1, f_value = v\<rparr> = \<lparr>f_freq = 1, f_value = v\<rparr>"
  using sdiv_two_nonneg [of m] by (simp add: lfu_aged_def max_def)


lemma lfu_putInternal_spec:
  assumes inv: "lfu_inv s" and kn: "map_of (lfu_nodeMap s) k = None"
    and h: "0 \<le> lfu_maxAverageNum s"
    and ne: "length (lfu_nodeMap s) = size_t_of_int (lfu_capacity s) \<longrightarrow> lfu_nodeMap s \<noteq> []"
  shows "\<exists>s'. LFUCache_putInternal s k v = Some s' \<and> lfu_wf s'
        \<and> map_of (lfu_nodeMap s') k = Some \<lparr>f_freq = 1, f_value = v\<rparr>
        \<and> lfu_maxAverageNum s' = lfu_maxAverageNum s \<and> lfu_capacity s' = lfu_capacity s
        \<and> lfu_sentinelKey s' = lfu_sentinelKey s
        \<and> (lfu_in_range s' \<longrightarrow> lfu_inv s')"
proof -
  from inv have wf: "lfu_wf s"
    and one: "\<And>k n. map_of (lfu_nodeMap s) k = Some n \<Longrightarrow> 1 \<le> f_freq n"
    and mn: "lfu_nodeMap s \<noteq> [] \<longrightarrow> lfu_least_nonempty s = Some (lfu_minFreq s)"
    unfolding lfu_inv_def by blast+
  let ?node = "\<lparr>f_freq = 1, f_value = v\<rparr>"
  have "\<exists>t. (if length (lfu_nodeMap s) = size_t_of_int (lfu_capacity s)
              then LFUCache_kickOut s else Some s) = Some t
        \<and> lfu_wf t \<and> map_of (lfu_nodeMap t) k = None
        \<and> (\<forall>k2 n2. map_of (lfu_nodeMap t) k2 = Some n2 \<longrightarrow> 1 \<le> f_freq n2)
        \<and> lfu_maxAverageNum t = lfu_maxAverageNum s \<and> lfu_capacity t = lfu_capacity s
        \<and> lfu_sentinelKey t = lfu_sentinelKey s"
  proof (cases "length (lfu_nodeMap s) = size_t_of_int (lfu_capacity s)")
    case True
    with ne mn have "lfu_least_nonempty s = Some (lfu_minFreq s)" by simp
    from lfu_kickOut_spec [OF wf this] obtain t k0 where
      t: "LFUCache_kickOut s = Some t" "lfu_nodeMap t = AList.delete k0 (lfu_nodeMap s)" "lfu_wf t"
         "lfu_maxAverageNum t = lfu_maxAverageNum s" "lfu_capacity t = lfu_capacity s"
         "lfu_sentinelKey t = lfu_sentinelKey s"
      by blast
    have "map_of (lfu_nodeMap t) k2 = (if k2 = k0 then None else map_of (lfu_nodeMap s) k2)" for k2
      by (simp add: t(2) delete_conv')
    with kn one have "map_of (lfu_nodeMap t) k = None"
      and "\<forall>k2 n2. map_of (lfu_nodeMap t) k2 = Some n2 \<longrightarrow> 1 \<le> f_freq n2"
      by (auto split: if_splits)
    with True t show ?thesis by simp
  next
    case False
    with wf kn one show ?thesis by simp
  qed
  then obtain t where
    kick: "(if length (lfu_nodeMap s) = size_t_of_int (lfu_capacity s)
              then LFUCache_kickOut s else Some s) = Some t" and
    wft: "lfu_wf t" and knt: "map_of (lfu_nodeMap t) k = None" and
    onet: "\<And>k2 n2. map_of (lfu_nodeMap t) k2 = Some n2 \<Longrightarrow> 1 \<le> f_freq n2" and
    fldt: "lfu_maxAverageNum t = lfu_maxAverageNum s" "lfu_capacity t = lfu_capacity s"
          "lfu_sentinelKey t = lfu_sentinelKey s"
    by blast
  define t3 where "t3 = LFUCache_addToFreqList
      (t\<lparr>lfu_nodeMap := AList.update k ?node (lfu_nodeMap t)\<rparr>) k ?node"
  have "t\<lparr>lfu_nodeMap := AList.update k ?node (lfu_nodeMap t)\<rparr>
      = t\<lparr>lfu_freqToFreqList := lfu_unlink k (lfu_freqToFreqList t),
           lfu_nodeMap := AList.update k ?node (lfu_nodeMap t)\<rparr>"
    by (simp add: lfu_unlink_absent [OF wft knt])
  then have t3': "t3 = LFUCache_addToFreqList
      (t\<lparr>lfu_freqToFreqList := lfu_unlink k (lfu_freqToFreqList t),
           lfu_nodeMap := AList.update k ?node (lfu_nodeMap t)\<rparr>) k ?node"
    by (simp add: t3_def)
  have wf3: "lfu_wf t3" unfolding t3' using wft by (rule lfu_wf_rebucket) simp
  have nm3: "lfu_nodeMap t3 = AList.update k ?node (lfu_nodeMap t)"
    by (simp add: t3_def LFUCache_addToFreqList_def)
  have A3: "map_of (lfu_nodeMap t3) k2 = (if k2 = k then Some ?node else map_of (lfu_nodeMap t) k2)" for k2
    by (simp add: nm3 update_conv')
  have ne3: "lfu_nodeMap t3 \<noteq> []"
    using A3 [of k] by auto
  have fld3: "lfu_maxAverageNum t3 = lfu_maxAverageNum s" "lfu_capacity t3 = lfu_capacity s"
          "lfu_sentinelKey t3 = lfu_sentinelKey s"
    using fldt by (simp_all add: t3_def LFUCache_addToFreqList_def)
  from lfu_addFreqNum_spec [OF wf3 ne3] obtain s4 where
    a: "LFUCache_addFreqNum t3 = Some s4" and w4: "lfu_wf s4" and
    f4: "map fst (lfu_nodeMap s4) = map fst (lfu_nodeMap t3)" and
    c: "if lfu_maxAverageNum t3 < lfu_average (lfu_curTotalNum t3 + 1) (length (lfu_nodeMap t3))
            then (\<forall>k. map_of (lfu_nodeMap s4) k
                    = map_option (lfu_aged (lfu_maxAverageNum t3)) (map_of (lfu_nodeMap t3) k))
                 \<and> (lfu_in_range s4 \<longrightarrow> lfu_least_nonempty s4 = Some (lfu_minFreq s4))
            else lfu_nodeMap s4 = lfu_nodeMap t3 \<and> lfu_freqToFreqList s4 = lfu_freqToFreqList t3
                 \<and> lfu_minFreq s4 = lfu_minFreq t3" and
    fld4: "lfu_maxAverageNum s4 = lfu_maxAverageNum t3" "lfu_capacity s4 = lfu_capacity t3"
        "lfu_sentinelKey s4 = lfu_sentinelKey t3"
    by blast
  have p: "LFUCache_putInternal s k v = Some (s4\<lparr>lfu_minFreq := 1\<rparr>)"
    unfolding LFUCache_putInternal_def kick by (simp add: Let_def t3_def [symmetric] a)
  have k4: "map_of (lfu_nodeMap s4) k = Some ?node"
  proof (cases "lfu_maxAverageNum t3 < lfu_average (lfu_curTotalNum t3 + 1) (length (lfu_nodeMap t3))")
    case True
    with c have "map_of (lfu_nodeMap s4) k = Some (lfu_aged (lfu_maxAverageNum t3) ?node)"
      by (simp add: A3)
    with h show ?thesis by (simp add: fld3 lfu_aged_fresh)
  next
    case False
    with c show ?thesis by (simp add: A3)
  qed
  have one4: "1 \<le> f_freq n2" if "map_of (lfu_nodeMap s4) k2 = Some n2" for k2 n2
  proof (cases "lfu_maxAverageNum t3 < lfu_average (lfu_curTotalNum t3 + 1) (length (lfu_nodeMap t3))")
    case True
    with c that obtain n0 where "n2 = lfu_aged (lfu_maxAverageNum t3) n0" by auto
    then show ?thesis by simp
  next
    case False
    with c that have "map_of (lfu_nodeMap t3) k2 = Some n2" by simp
    with onet [of k2 n2] show ?thesis by (auto simp: A3 split: if_splits)
  qed
  have "lfu_wf (s4\<lparr>lfu_minFreq := 1\<rparr>) = lfu_wf s4" by (rule lfu_wf_fields) simp_all
  with w4 have w5: "lfu_wf (s4\<lparr>lfu_minFreq := 1\<rparr>)" by simp
  have inv5: "lfu_inv (s4\<lparr>lfu_minFreq := 1\<rparr>)" if r: "lfu_in_range (s4\<lparr>lfu_minFreq := 1\<rparr>)"
  proof -
    from k4 have "\<exists>k n. map_of (lfu_nodeMap s4) k = Some n \<and> f_freq n = 1"
      by (intro exI [of _ k] exI [of _ "\<lparr>f_freq = 1, f_value = v\<rparr>"]) simp
    then have "lfu_least_nonempty (s4\<lparr>lfu_minFreq := 1\<rparr>) = Some 1"
      unfolding lfu_least_nonempty_wf [OF w5] using one4 by simp
    moreover from k4 have "lfu_nodeMap (s4\<lparr>lfu_minFreq := 1\<rparr>) \<noteq> []" by auto
    ultimately show ?thesis
      unfolding lfu_inv_def using w5 r one4 by simp
  qed
  from w5 k4 fld4 fld3 inv5 show ?thesis unfolding p by simp
qed


lemma lfu_inv_set_value:
  assumes "lfu_inv s" and kn: "map_of (lfu_nodeMap s) k = Some node"
  shows "lfu_inv (s\<lparr>lfu_nodeMap := AList.update k (node\<lparr>f_value := v\<rparr>) (lfu_nodeMap s)\<rparr>)"
proof -
  let ?s1 = "s\<lparr>lfu_nodeMap := AList.update k (node\<lparr>f_value := v\<rparr>) (lfu_nodeMap s)\<rparr>"
  from assms(1) have wf: "lfu_wf s" and r: "lfu_in_range s"
    and one: "\<And>k n. map_of (lfu_nodeMap s) k = Some n \<Longrightarrow> 1 \<le> f_freq n"
    and mn: "lfu_nodeMap s \<noteq> [] \<longrightarrow> lfu_least_nonempty s = Some (lfu_minFreq s)"
    unfolding lfu_inv_def by blast+
  have w1: "lfu_wf ?s1" using wf kn by (rule lfu_wf_set_value)
  have A1: "map_of (lfu_nodeMap ?s1) k2
      = (if k2 = k then Some (node\<lparr>f_value := v\<rparr>) else map_of (lfu_nodeMap s) k2)" for k2
    by (simp add: update_conv')
  from r have r': "\<And>k n. map_of (lfu_nodeMap s) k = Some n \<Longrightarrow> f_freq n < INT_MAX"
    unfolding lfu_in_range_wf [OF wf] by blast
  have "f_freq n2 < INT_MAX" if "map_of (lfu_nodeMap ?s1) k2 = Some n2" for k2 n2
    using that r' [OF kn] r' [of k2 n2] by (auto simp: update_conv' split: if_splits)
  then have r1: "lfu_in_range ?s1"
    unfolding lfu_in_range_wf [OF w1] by blast
  have one1: "1 \<le> f_freq n2" if "map_of (lfu_nodeMap ?s1) k2 = Some n2" for k2 n2
    using that one [OF kn] one [of k2 n2] by (auto simp: update_conv' split: if_splits)
  from kn have ne: "lfu_nodeMap s \<noteq> []" by auto
  have ne1: "lfu_nodeMap ?s1 \<noteq> []" using A1 [of k] by auto
  have "lfu_least_nonempty ?s1 = lfu_least_nonempty s" by (rule lfu_least_nonempty_cong) simp
  with mn ne have mn1: "lfu_least_nonempty ?s1 = Some (lfu_minFreq ?s1)" by simp
  from w1 r1 one1 mn1 ne1 show ?thesis unfolding lfu_inv_def by blast
qed

lemma lfu_put_spec:
  assumes inv: "lfu_inv s" and h: "0 \<le> lfu_maxAverageNum s"
    and ne: "length (lfu_nodeMap s) = size_t_of_int (lfu_capacity s) \<longrightarrow> lfu_nodeMap s \<noteq> []"
  shows "\<exists>s'. LFUCache_put s k v = Some s' \<and> lfu_wf s'
        \<and> (lfu_capacity s \<noteq> 0 \<longrightarrow> map_option f_value (map_of (lfu_nodeMap s') k) = Some v)
        \<and> lfu_maxAverageNum s' = lfu_maxAverageNum s \<and> lfu_capacity s' = lfu_capacity s
        \<and> lfu_sentinelKey s' = lfu_sentinelKey s
        \<and> (lfu_in_range s' \<longrightarrow> lfu_inv s')"
proof (cases "lfu_capacity s = 0")
  case True
  with inv show ?thesis by (simp add: LFUCache_put_def lfu_inv_def)
next
  case False
  show ?thesis
  proof (cases "map_of (lfu_nodeMap s) k")
    case None
    from lfu_putInternal_spec [OF inv None h ne, of v] False None show ?thesis
      by (auto simp: LFUCache_put_def)
  next
    case (Some node)
    let ?node1 = "node\<lparr>f_value := v\<rparr>"
    let ?s1 = "s\<lparr>lfu_nodeMap := AList.update k ?node1 (lfu_nodeMap s)\<rparr>"
    have i1: "lfu_inv ?s1" using inv Some by (rule lfu_inv_set_value)
    then have w1: "lfu_wf ?s1" by (simp add: lfu_inv_def)
    have k1: "map_of (lfu_nodeMap ?s1) k = Some ?node1" by (simp add: update_conv')
    from lfu_getInternal_spec [OF w1 k1] i1 obtain s' where
      g: "LFUCache_getInternal ?s1 k ?node1 = Some (f_value ?node1, s')" and
      w: "lfu_wf s'" and
      vals: "\<forall>k2. map_option f_value (map_of (lfu_nodeMap s') k2)
                = map_option f_value (map_of (lfu_nodeMap ?s1) k2)" and
      fld: "lfu_maxAverageNum s' = lfu_maxAverageNum ?s1" "lfu_capacity s' = lfu_capacity ?s1"
           "lfu_sentinelKey s' = lfu_sentinelKey ?s1" and
      i: "lfu_in_range s' \<longrightarrow> lfu_inv s'"
      by blast
    from False Some g have p: "LFUCache_put s k v = Some s'"
      by (simp add: LFUCache_put_def Let_def)
    from vals k1 have "map_option f_value (map_of (lfu_nodeMap s') k) = Some v" by simp
    with w fld i show ?thesis unfolding p by simp
  qed
qed

lemma lfu_put_inv:
  assumes inv: "lfu_inv s" and h: "0 \<le> lfu_maxAverageNum s"
    and p: "LFUCache_put s k v = Some s'" and r: "lfu_in_range s'"
  shows "lfu_inv s' \<and> lfu_maxAverageNum s' = lfu_maxAverageNum s \<and> lfu_capacity s' = lfu_capacity s
        \<and> lfu_sentinelKey s' = lfu_sentinelKey s"
proof (cases "length (lfu_nodeMap s) = size_t_of_int (lfu_capacity s) \<longrightarrow> lfu_nodeMap s \<noteq> []")
  case True
  from lfu_put_spec [OF inv h True, of k v] p r show ?thesis by auto
next
  case False
  then have e: "lfu_nodeMap s = []" and l: "length (lfu_nodeMap s) = size_t_of_int (lfu_capacity s)"
    by auto
  with inv have fl: "lfu_freqToFreqList s = []" by (simp add: lfu_inv_def)
  show ?thesis
  proof (cases "lfu_capacity s = 0")
    case True
    with p inv show ?thesis by (simp add: LFUCache_put_def)
  next
    case c: False
    from e l fl have "LFUCache_putInternal s k v = None"
      by (simp add: LFUCache_putInternal_def LFUCache_kickOut_def)
    with c e p show ?thesis by (simp add: LFUCache_put_def)
  qed
qed

lemma lfu_get_spec:
  assumes wf: "lfu_wf s"
  shows "\<exists>s'. LFUCache_get s k out
          = Some (map_of (lfu_nodeMap s) k \<noteq> None,
                  (case map_of (lfu_nodeMap s) k of Some n \<Rightarrow> f_value n | None \<Rightarrow> out), s')
        \<and> lfu_wf s'
        \<and> lfu_maxAverageNum s' = lfu_maxAverageNum s \<and> lfu_capacity s' = lfu_capacity s
        \<and> lfu_sentinelKey s' = lfu_sentinelKey s
        \<and> (map_of (lfu_nodeMap s) k = None \<longrightarrow> s' = s)
        \<and> (lfu_inv s \<and> lfu_in_range s' \<longrightarrow> lfu_inv s')"
proof (cases "map_of (lfu_nodeMap s) k")
  case None
  with wf show ?thesis by (simp add: LFUCache_get_def)
next
  case (Some node)
  from lfu_getInternal_spec [OF wf Some] obtain s' where
    "LFUCache_getInternal s k node = Some (f_value node, s')" "lfu_wf s'"
    "lfu_maxAverageNum s' = lfu_maxAverageNum s" "lfu_capacity s' = lfu_capacity s"
    "lfu_sentinelKey s' = lfu_sentinelKey s" "lfu_inv s \<and> lfu_in_range s' \<longrightarrow> lfu_inv s'"
    by blast
  with Some show ?thesis by (simp add: LFUCache_get_def)
qed

lemma lfu_reach_inv:
  assumes h: "0 \<le> maxAverageNum" and r: "lfu_reach sentinelKey cap maxAverageNum s"
  shows "lfu_inv s \<and> lfu_maxAverageNum s = maxAverageNum \<and> lfu_capacity s = cap
       \<and> lfu_sentinelKey s = sentinelKey"
  using r
proof (induction rule: lfu_reach.induct)
  case lfu_reach_new
  show ?case
    by (simp add: LFUCache_new_def lfu_inv_def lfu_wf_def lfu_in_range_def)
next
  case (lfu_reach_put s k v s')
  with h lfu_put_inv [of s k v s'] show ?case by simp
next
  case (lfu_reach_get s k out hit v s')
  from lfu_reach_get.IH have wf: "lfu_wf s" by (simp add: lfu_inv_def)
  from lfu_get_spec [OF wf, of k out] lfu_reach_get.hyps(2) lfu_reach_get.hyps(3) lfu_reach_get.IH
  show ?case by auto
next
  case (lfu_reach_purge s)
  then show ?case
    by (simp add: LFUCache_purge_def lfu_inv_def lfu_wf_def lfu_in_range_def)
qed

text \<open>
  For an LFU engine built with \<open>maxAverageNum \<ge> 0\<close>, in every non-empty state reached
  through the public operations (while no frequency has reached \<open>INT_MAX\<close>),
  \<open>_minFreq\<close> is the smallest frequency whose list is non-empty; so \<open>kickOut\<close>, which
  \<open>putInternal\<close> calls on such a state when the cache is full, returns and evicts an
  entry of that frequency.
\<close>

lemma LFUCache_minFreq_before_kickOut:
  assumes "0 \<le> maxAverageNum" and "lfu_reach sentinelKey cap maxAverageNum s"
    and "lfu_nodeMap s \<noteq> []"
  shows "lfu_least_nonempty s = Some (lfu_minFreq s)
       \<and> (\<exists>s' k0 n0. LFUCache_kickOut s = Some s'
             \<and> map_of (lfu_nodeMap s) k0 = Some n0 \<and> f_freq n0 = lfu_minFreq s
             \<and> lfu_nodeMap s' = AList.delete k0 (lfu_nodeMap s))"
proof -
  from lfu_reach_inv [OF assms(1,2)] have i: "lfu_inv s" by simp
  with assms(3) have m: "lfu_least_nonempty s = Some (lfu_minFreq s)" and w: "lfu_wf s"
    by (simp_all add: lfu_inv_def)
  from lfu_kickOut_spec [OF w m] m show ?thesis by blast
qed

lemma LFUCache_minFreq_before_kickOut_full:
  "(0::int) \<le> 10 \<and> lfu_reach 0 2 10 lfu_state_full \<and> lfu_nodeMap lfu_state_full \<noteq> []
   \<and> length (lfu_nodeMap lfu_state_full) = size_t_of_int (lfu_capacity lfu_state_full)
   \<and> lfu_minFreq lfu_state_full = 1
   \<and> lfu_least_nonempty lfu_state_full = Some 1"
proof -
  have p1: "LFUCache_put (LFUCache_new 0 2 10) 1 ''a'' = Some lfu_state_one" by code_simp
  have r1: "lfu_in_range lfu_state_one" by code_simp
  have p2: "LFUCache_put lfu_state_one 2 ''b'' = Some lfu_state_full" by code_simp
  have r2: "lfu_in_range lfu_state_full" by code_simp
  have r: "lfu_reach 0 2 10 lfu_state_full"
    by (rule lfu_reach_put [OF lfu_reach_put [OF lfu_reach_new p1 r1] p2 r2])
  have n: "lfu_nodeMap lfu_state_full \<noteq> []" by code_simp
  have l: "length (lfu_nodeMap lfu_state_full) = size_t_of_int (lfu_capacity lfu_state_full)"
    by code_simp
  have m: "lfu_minFreq lfu_state_full = 1" by code_simp
  have z: "(0::int) \<le> 10" by simp
  from LFUCache_minFreq_before_kickOut [OF z r n] z r n l m show ?thesis by simp
qed

text \<open>
  Claim C5 on \<open>LFUCache(1, -2)\<close>.  \<open>putInternal\<close> calls \<open>addFreqNum()\<close> and then sets
  \<open>_minFreq = 1\<close>.  In \<open>put(1, "a")\<close> on the fresh cache, \<open>addFreqNum\<close> finds the average
  1 above \<open>maxAverageNum = -2\<close> and runs the ageing pass, which subtracts
  \<open>-2 / 2 = -1\<close>: the new node moves to the list of frequency 2, and \<open>updateMinFreq\<close>
  sets \<open>_minFreq\<close> to 2.  The assignment that follows overwrites it with 1.  The
  cache is now full, so the next \<open>put\<close> of a new key calls \<open>kickOut\<close> on this state:
  \<open>_minFreq\<close> is 1 there, while the smallest frequency whose list is non-empty is 2.
\<close>

theorem LFUCache_minFreq_negative_maxAverage:
  "LFUCache_put (LFUCache_new 0 1 (- 2)) 1 ''a'' = Some lfu_state_negative
   \<and> lfu_in_range lfu_state_negative
   \<and> length (lfu_nodeMap lfu_state_negative) = size_t_of_int (lfu_capacity lfu_state_negative)
   \<and> lfu_minFreq lfu_state_negative = 1
   \<and> lfu_least_nonempty lfu_state_negative = Some 2"
  by code_simp

theorem LFUCache_minFreq_negative_maxAverage_witness:
  "lfu_nodeMap lfu_state_negative = [(1, \<lparr>f_freq = 2, f_value = ''a''\<rparr>)]
   \<and> (2::int) < INT_MAX
   \<and> lfu_freqToFreqList lfu_state_negative = [(1, []), (2, [1])]
   \<and> lfu_minFreq lfu_state_negative = 1
   \<and> lfu_least_nonempty lfu_state_negative = Some 2"
proof -
  have 1: "lfu_nodeMap lfu_state_negative = [(1, \<lparr>f_freq = 2, f_value = ''a''\<rparr>)]"
    by (simp add: lfu_state_negative_def)
  have 2: "(2::int) < INT_MAX" by (simp add: INT_MAX_def)
  have 3: "lfu_freqToFreqList lfu_state_negative = [(1, []), (2, [1])]"
    by (simp add: lfu_state_negative_def)
  from LFUCache_minFreq_negative_maxAverage 1 2 3 show ?thesis by (intro conjI) simp_all
qed

text \<open>
  Claim C6.  When \<open>addFreqNum\<close> takes the average above \<open>maxAverageNum\<close> (on a
  non-empty cache whose index and lists agree, with the new frequencies below
  \<open>INT_MAX\<close>), it returns, and in the state it returns every entry has the frequency
  \<open>max(1, old - maxAverageNum / 2)\<close> and its old value, every entry is linked in the
  list of its new frequency and in no other, and \<open>_minFreq\<close> is the smallest
  frequency whose list is non-empty.  \<open>updateMinFreq\<close> gives 1 when no list is
  non-empty.
\<close>

theorem LFUCache_ageing:
  fixes s :: "('k, 'v) LFUCache"
  assumes "lfu_wf s" and "lfu_nodeMap s \<noteq> []"
    and "lfu_maxAverageNum s < lfu_average (lfu_curTotalNum s + 1) (length (lfu_nodeMap s))"
    and "\<forall>(k, n) \<in> set (lfu_nodeMap s). f_freq (lfu_aged (lfu_maxAverageNum s) n) < INT_MAX"
  shows "\<exists>s'. LFUCache_addFreqNum s = Some s'
           \<and> (\<forall>k. map_of (lfu_nodeMap s') k
                  = map_option (lfu_aged (lfu_maxAverageNum s)) (map_of (lfu_nodeMap s) k))
           \<and> lfu_wf s'
           \<and> lfu_least_nonempty s' = Some (lfu_minFreq s')
           \<and> (\<forall>t :: ('k, 'v) LFUCache.
                 lfu_least_nonempty t = None \<longrightarrow> lfu_minFreq (LFUCache_updateMinFreq t) = 1)"
proof -
  from lfu_addFreqNum_spec [OF assms(1,2)] assms(3) obtain s' where
    a: "LFUCache_addFreqNum s = Some s'" and w: "lfu_wf s'" and
    m: "\<forall>k. map_of (lfu_nodeMap s') k
            = map_option (lfu_aged (lfu_maxAverageNum s)) (map_of (lfu_nodeMap s) k)" and
    r: "lfu_in_range s' \<longrightarrow> lfu_least_nonempty s' = Some (lfu_minFreq s')"
    by auto
  have "f_freq n' < INT_MAX" if "map_of (lfu_nodeMap s') k = Some n'" for k n'
  proof -
    from that m obtain n where "map_of (lfu_nodeMap s) k = Some n"
      and "n' = lfu_aged (lfu_maxAverageNum s) n" by auto
    with assms(4) show ?thesis by (auto dest: map_of_SomeD)
  qed
  then have "lfu_in_range s'" unfolding lfu_in_range_wf [OF w] by blast
  with r have l: "lfu_least_nonempty s' = Some (lfu_minFreq s')" by simp
  have u: "lfu_minFreq (LFUCache_updateMinFreq t) = 1" if "lfu_least_nonempty t = None"
    for t :: "('k, 'v) LFUCache"
  proof -
    define g where "g = ((\<lambda>(f, b) m. if b \<noteq> [] then min m f else m) :: int \<times> 'k list \<Rightarrow> int \<Rightarrow> int)"
    from that have "filter (\<lambda>(f, b). b \<noteq> []) (lfu_freqToFreqList t) = []"
      by (simp add: lfu_least_nonempty_def split: list.splits)
    then have "\<not> (\<exists>(f, b) \<in> set (lfu_freqToFreqList t). b \<noteq> [])"
      by (auto simp: filter_empty_conv)
    with lfu_fold_min [of "lfu_freqToFreqList t" INT_MAX]
    have "fold g (lfu_freqToFreqList t) INT_MAX = INT_MAX" unfolding g_def by blast
    then show ?thesis by (simp add: LFUCache_updateMinFreq_def Let_def g_def)
  qed
  from a m w l u show ?thesis by blast
qed

lemma lfu_state_hot_wf: "lfu_wf lfu_state_hot"
  by (auto simp: lfu_wf_def lfu_state_hot_def lfu_bucket_def split: if_splits)

theorem LFUCache_ageing_witness:
  "lfu_nodeMap lfu_state_hot \<noteq> []
   \<and> lfu_maxAverageNum lfu_state_hot
       < lfu_average (lfu_curTotalNum lfu_state_hot + 1) (length (lfu_nodeMap lfu_state_hot))
   \<and> LFUCache_addFreqNum lfu_state_hot = Some
       \<lparr>lfu_capacity = 2, lfu_minFreq = 1, lfu_maxAverageNum = 2, lfu_curAverageNum = 2,
        lfu_curTotalNum = 4,
        lfu_nodeMap = [(1, \<lparr>f_freq = 2, f_value = ''a''\<rparr>), (2, \<lparr>f_freq = 1, f_value = ''b''\<rparr>)],
        lfu_freqToFreqList = [(1, [2]), (2, [1]), (3, [])], lfu_sentinelKey = 0\<rparr>
   \<and> lfu_least_nonempty
       \<lparr>lfu_capacity = 2, lfu_minFreq = 1, lfu_maxAverageNum = 2, lfu_curAverageNum = 2,
        lfu_curTotalNum = 4,
        lfu_nodeMap = [(1, \<lparr>f_freq = 2, f_value = ''a''\<rparr>), (2, \<lparr>f_freq = 1, f_value = ''b''\<rparr>)],
        lfu_freqToFreqList = [(1, [2]), (2, [1]), (3, [])], lfu_sentinelKey = (0::nat)\<rparr> = Some 1"
proof -
  note w = lfu_state_hot_wf
  have n: "lfu_nodeMap lfu_state_hot \<noteq> []" by code_simp
  have t: "lfu_maxAverageNum lfu_state_hot
       < lfu_average (lfu_curTotalNum lfu_state_hot + 1) (length (lfu_nodeMap lfu_state_hot))"
    by code_simp
  have r: "\<forall>(k, n) \<in> set (lfu_nodeMap lfu_state_hot).
         f_freq (lfu_aged (lfu_maxAverageNum lfu_state_hot) n) < INT_MAX"
    by code_simp
  have e: "LFUCache_addFreqNum lfu_state_hot = Some
       \<lparr>lfu_capacity = 2, lfu_minFreq = 1, lfu_maxAverageNum = 2, lfu_curAverageNum = 2,
        lfu_curTotalNum = 4,
        lfu_nodeMap = [(1, \<lparr>f_freq = 2, f_value = ''a''\<rparr>), (2, \<lparr>f_freq = 1, f_value = ''b''\<rparr>)],
        lfu_freqToFreqList = [(1, [2]), (2, [1]), (3, [])], lfu_sentinelKey = 0\<rparr>"
    by code_simp
  from LFUCache_ageing [OF w n t r] obtain s' where
    "LFUCache_addFreqNum lfu_state_hot = Some s'" and "lfu_least_nonempty s' = Some (lfu_minFreq s')"
    by blast
  with e have "lfu_least_nonempty
       \<lparr>lfu_capacity = 2, lfu_minFreq = 1, lfu_maxAverageNum = 2, lfu_curAverageNum = 2,
        lfu_curTotalNum = 4,
        lfu_nodeMap = [(1, \<lparr>f_freq = 2, f_value = ''a''\<rparr>), (2, \<lparr>f_freq = 1, f_value = ''b''\<rparr>)],
        lfu_freqToFreqList = [(1, [2]), (2, [1]), (3, [])], lfu_sentinelKey = (0::nat)\<rparr> = Some 1"
    by auto
  with n t e show ?thesis by (intro conjI)
qed

section \<open>Invariant of the LRU-K engine\<close>

lemma lru_capacity_remove: "lru_capacity (LRUCache_remove c k) = lru_capacity c"
  by (simp add: LRUCache_remove_def LRUCache_removeNode_def split: option.splits)

lemma lruk_bump_snd:
  "snd (lruk_bump_history h k uninit)
     = LRUCache_put (snd (snd (LRUCache_get h k uninit))) k (fst (lruk_bump_history h k uninit))"
  by (simp add: lruk_bump_history_def LRUCache_get_value_def Let_def split: prod.splits)

lemma lruk_bump_inv:
  "lru_inv h \<Longrightarrow> lru_inv (snd (lruk_bump_history h k uninit))"
  by (simp only: lruk_bump_snd [of h k uninit] lru_inv_put lru_inv_get)

lemma lruk_bump_capacity:
  "lru_capacity (snd (lruk_bump_history h k uninit)) = lru_capacity h"
  by (simp only: lruk_bump_snd [of h k uninit] lru_capacity_put lru_capacity_get)

lemma lruk_inv_put:
  assumes "lruk_inv cap hcap K c"
  shows "lruk_inv cap hcap K (LRUKCache_put c k v uninit)"
proof -
  obtain hc h1 where b: "lruk_bump_history (lruk_historyList c) k uninit = (hc, h1)"
    by (cases "lruk_bump_history (lruk_historyList c) k uninit")
  obtain f x m1 where g: "LRUCache_get (lruk_main c) k v = (f, x, m1)"
    by (cases "LRUCache_get (lruk_main c) k v")
  from assms have i: "lru_inv (lruk_main c)" "lru_inv (lruk_historyList c)"
    by (simp_all add: lruk_inv_def)
  from lru_inv_get [OF i(1), of k v] g have m1: "lru_inv m1" by simp
  from lru_capacity_get [of "lruk_main c" k v] g have cm: "lru_capacity m1 = lru_capacity (lruk_main c)"
    by simp
  from lruk_bump_inv [OF i(2), of k uninit] b have h1: "lru_inv h1" by simp
  from lruk_bump_capacity [of "lruk_historyList c" k uninit] b
  have ch: "lru_capacity h1 = lru_capacity (lruk_historyList c)" by simp
  from assms show ?thesis
    by (simp add: lruk_inv_def LRUKCache_put_def g b Let_def m1 h1 cm ch lru_inv_put
        lru_inv_remove lru_capacity_remove)
qed

lemma lruk_inv_get:
  assumes "lruk_inv cap hcap K c"
  shows "lruk_inv cap hcap K (snd (LRUKCache_get c k dflt uninit))"
proof -
  obtain hc h1 where b: "lruk_bump_history (lruk_historyList c) k uninit = (hc, h1)"
    by (cases "lruk_bump_history (lruk_historyList c) k uninit")
  obtain f x m1 where g: "LRUCache_get (lruk_main c) k dflt = (f, x, m1)"
    by (cases "LRUCache_get (lruk_main c) k dflt")
  from assms have i: "lru_inv (lruk_main c)" "lru_inv (lruk_historyList c)"
    by (simp_all add: lruk_inv_def)
  from lru_inv_get [OF i(1), of k dflt] g have m1: "lru_inv m1" by simp
  from lru_capacity_get [of "lruk_main c" k dflt] g
  have cm: "lru_capacity m1 = lru_capacity (lruk_main c)" by simp
  from lruk_bump_inv [OF i(2), of k uninit] b have h1: "lru_inv h1" by simp
  from lruk_bump_capacity [of "lruk_historyList c" k uninit] b
  have ch: "lru_capacity h1 = lru_capacity (lruk_historyList c)" by simp
  from assms show ?thesis
    by (simp add: lruk_inv_def LRUKCache_get_def g b Let_def m1 h1 cm ch lru_inv_put
        lru_inv_remove lru_capacity_remove split: option.splits)
qed

lemma lruk_inv_new: "lruk_inv cap hcap K (LRUKCache_new cap hcap K)"
  by (simp add: lruk_inv_def LRUKCache_new_def LRUCache_new_def lru_inv_def)

lemma lruk_inv_run:
  "lruk_inv cap hcap K c \<Longrightarrow> lruk_inv cap hcap K (lruk_run dflt c ops)"
proof (induction ops arbitrary: c)
  case Nil
  then show ?case by (simp add: lruk_run_def)
next
  case (Cons opu ops)
  obtain op uninit where o: "opu = (op, uninit)" by (cases opu)
  from Cons.prems have "lruk_inv cap hcap K (lruk_step dflt c opu)"
    unfolding o by (cases op) (simp_all add: lruk_step_def lruk_inv_put lruk_inv_get)
  from Cons.IH [OF this] show ?case by (simp add: lruk_run_def)
qed

lemma LRUKCache_get_miss:
  assumes "lru_find (lruk_main c) k = None"
  shows "fst (LRUKCache_get c k dflt uninit) =
     (if size_t_of_int (lruk_k c) \<le> size_t_inc (lruk_history_read c k uninit)
      then (case map_of (lruk_historyValueMap c) k of Some storedValue \<Rightarrow> storedValue | None \<Rightarrow> dflt)
      else dflt)"
proof -
  obtain hc h1 where b: "lruk_bump_history (lruk_historyList c) k uninit = (hc, h1)"
    by (cases "lruk_bump_history (lruk_historyList c) k uninit")
  with lruk_bump_count [of "lruk_historyList c" k uninit]
  have hc: "hc = size_t_inc (lruk_history_read c k uninit)"
    by (simp add: lruk_history_read_def)
  from assms b show ?thesis
    by (simp add: LRUKCache_get_def LRUCache_get_def Let_def hc split: option.splits)
qed

section \<open>Engines of capacity 0\<close>

lemma lru_reach_zero: "lru_reach 0 c \<Longrightarrow> c = LRUCache_new 0"
proof (induction rule: lru_reach.induct)
  case lru_reach_new
  show ?case by simp
next
  case (lru_reach_put c k v)
  then show ?case by (simp add: LRUCache_put_def LRUCache_new_def)
next
  case (lru_reach_get c k out)
  then show ?case by (simp add: LRUCache_get_def LRUCache_new_def lru_find_def)
next
  case (lru_reach_remove c k)
  then show ?case by (simp add: LRUCache_remove_def LRUCache_new_def lru_find_def)
qed

lemma LRUCache_new_zero:
  "LRUCache_put (LRUCache_new 0) k v = LRUCache_new 0"
  "LRUCache_get (LRUCache_new 0) k out = (False, out, LRUCache_new 0)"
  "LRUCache_get_value (LRUCache_new 0) k uninit = (uninit, LRUCache_new 0)"
  by (simp_all add: LRUCache_put_def LRUCache_get_value_def LRUCache_get_def LRUCache_new_def lru_find_def)

lemma LFUCache_new_zero:
  "LFUCache_put (LFUCache_new sk 0 m) k v = Some (LFUCache_new sk 0 m)"
  "LFUCache_get (LFUCache_new sk 0 m) k out = Some (False, out, LFUCache_new sk 0 m)"
  "LFUCache_get_value (LFUCache_new sk 0 m) k dflt = Some (dflt, LFUCache_new sk 0 m)"
  "LFUCache_purge (LFUCache_new sk 0 m) = LFUCache_new sk 0 m"
  by (simp_all add: LFUCache_put_def LFUCache_get_value_def LFUCache_get_def LFUCache_new_def
      LFUCache_purge_def)

lemma lfu_reach_zero: "lfu_reach sk 0 m s \<Longrightarrow> s = LFUCache_new sk 0 m"
proof (induction rule: lfu_reach.induct)
  case lfu_reach_new
  show ?case by simp
next
  case (lfu_reach_put s k v s')
  then show ?case by (simp add: LFUCache_new_zero)
next
  case (lfu_reach_get s k out hit v s')
  then show ?case by (simp add: LFUCache_new_zero)
next
  case (lfu_reach_purge s)
  then show ?case by (simp add: LFUCache_new_zero)
qed

lemma ArcCache_new_zero:
  "ArcCache_put (ArcCache_new 0 th) k v = ArcCache_new 0 th"
  "ArcCache_get (ArcCache_new 0 th) k out = (False, out, ArcCache_new 0 th)"
  "ArcCache_get_value (ArcCache_new 0 th) k dflt = (dflt, ArcCache_new 0 th)"
proof -
  have g: "ArcCache_checkGhostCaches (ArcCache_new 0 th) k = (False, ArcCache_new 0 th)"
    by (simp add: ArcCache_checkGhostCaches_def ArcCache_new_def ArcLruPart_new_def ArcLfuPart_new_def
        ArcLruPart_checkGhost_def ArcLfuPart_checkGhost_def arc_find_def)
  show "ArcCache_put (ArcCache_new 0 th) k v = ArcCache_new 0 th"
    unfolding ArcCache_put_def g
    by (simp add: ArcCache_new_def ArcLruPart_new_def ArcLfuPart_new_def ArcLruPart_put_def
        ArcLfuPart_contain_def alfu_nodes_def arc_find_def)
  have e: "ArcCache_get (ArcCache_new 0 th) k out = (False, out, ArcCache_new 0 th)" for out
    unfolding ArcCache_get_def g
    by (simp add: ArcCache_new_def ArcLruPart_new_def ArcLfuPart_new_def ArcLruPart_get_def
        ArcLfuPart_get_def alfu_nodes_def arc_find_def)
  show "ArcCache_get (ArcCache_new 0 th) k out = (False, out, ArcCache_new 0 th)" by (rule e)
  show "ArcCache_get_value (ArcCache_new 0 th) k dflt = (dflt, ArcCache_new 0 th)"
    by (simp add: ArcCache_get_value_def e)
qed

lemma arc_reach_zero: "arc_reach 0 th c \<Longrightarrow> c = ArcCache_new 0 th"
  by (induction rule: arc_reach.induct) (simp_all add: ArcCache_new_zero)

lemma lruk_main_zero:
  "lruk_main (lruk_run dflt (LRUKCache_new 0 historyCapacity K) ops) = LRUCache_new 0"
proof (induction ops rule: rev_induct)
  case Nil
  show ?case by (simp add: lruk_run_def LRUKCache_new_def)
next
  case (snoc opu ops)
  let ?c = "lruk_run dflt (LRUKCache_new 0 historyCapacity K) ops"
  obtain op uninit where o: "opu = (op, uninit)" by (cases opu)
  have f: "lru_find (LRUCache_new 0 :: ('a, 'b) LRUCache) k = None" for k
    by (simp add: lru_find_def LRUCache_new_def)
  have "lruk_main (lruk_step dflt ?c opu) = LRUCache_new 0"
  proof (cases op)
    case (Put k v)
    then show ?thesis
      by (simp add: o lruk_step_def lruk_put_main snoc.IH f LRUCache_new_zero)
  next
    case (Get k)
    then show ?thesis
      by (simp add: o lruk_step_def lruk_get_main snoc.IH f LRUCache_new_zero)
  qed
  then show ?case by (simp add: lruk_run_def)
qed




section \<open>\<open>put\<close> followed by \<open>get\<close>\<close>

lemma LRUCache_put_get:
  assumes "lru_reach cap c" and "0 < cap"
  shows "\<exists>c'. LRUCache_get (LRUCache_put c k v) k out = (True, v, c')"
proof -
  from assms(1) have i: "lru_inv c" by (rule lru_reach_inv)
  have "lru_capacity c = cap" using assms(1)
    by (induction rule: lru_reach.induct) (simp_all add: LRUCache_new_def LRUCache_remove_def
        LRUCache_removeNode_def split: option.splits)
  with assms(2) have "0 < lru_capacity c" by simp
  with i obtain node where "lru_find (LRUCache_put c k v) k = Some node" and "n_value node = v"
    using lru_find_put_same [of c k v] by blast
  then show ?thesis by (simp add: LRUCache_get_def)
qed

lemma size_t_of_int_pos: "0 < cap \<Longrightarrow> cap < 2 ^ 64 \<Longrightarrow> size_t_of_int cap = nat cap"
  by (simp add: size_t_of_int_def)

lemma LFUCache_put_get:
  assumes "lfu_reach sentinelKey cap maxAverageNum s" and "0 \<le> maxAverageNum"
    and "0 < cap" and "cap < 2 ^ 31"
  shows "\<exists>s' s''. LFUCache_put s k v = Some s' \<and> LFUCache_get s' k out = Some (True, v, s'')"
proof -
  from lfu_reach_inv [OF assms(2,1)] have i: "lfu_inv s" and m: "lfu_maxAverageNum s = maxAverageNum"
    and c: "lfu_capacity s = cap" by simp_all
  from assms(3,4) have "size_t_of_int cap = nat cap" by (intro size_t_of_int_pos) simp_all
  with assms(3) c have ne: "length (lfu_nodeMap s) = size_t_of_int (lfu_capacity s) \<longrightarrow> lfu_nodeMap s \<noteq> []"
    by auto
  from assms(2) m have h: "0 \<le> lfu_maxAverageNum s" by simp
  from lfu_put_spec [OF i h ne, of k v] c assms(3) obtain s' where
    p: "LFUCache_put s k v = Some s'" and w: "lfu_wf s'"
    and val: "map_option f_value (map_of (lfu_nodeMap s') k) = Some v"
    by auto
  from val obtain n where n: "map_of (lfu_nodeMap s') k = Some n" "f_value n = v" by auto
  from lfu_get_spec [OF w, of k out] n obtain s'' where
    "LFUCache_get s' k out = Some (True, v, s'')" by auto
  with p show ?thesis by blast
qed

lemma arc_find_None: "arc_find ns k = None \<longleftrightarrow> k \<notin> a_key ` set ns"
  by (induction ns) (auto simp: arc_find_def)

lemma arc_find_hd: "a_key n = k \<Longrightarrow> arc_find (n # ns) k = Some n"
  by (simp add: arc_find_def)

lemma arc_find_SomeD: "arc_find ns k = Some n \<Longrightarrow> a_key n = k \<and> n \<in> set ns"
  unfolding arc_find_def by (induction ns) (auto split: if_splits)

lemma alru_evict_ghost_keys:
  "a_key ` set (alru_ghost (ArcLruPart_evictLeastRecent p))
     \<subseteq> a_key ` set (alru_ghost p) \<union> a_key ` set (alru_main p)"
proof (cases "alru_main p = []")
  case True
  then show ?thesis by (simp add: ArcLruPart_evictLeastRecent_def)
next
  case False
  then have "last (alru_main p) \<in> set (alru_main p)" by simp
  moreover have "set (butlast (alru_ghost p)) \<subseteq> set (alru_ghost p)"
    by (auto dest: in_set_butlastD)
  ultimately show ?thesis using False
    by (auto simp: ArcLruPart_evictLeastRecent_def Let_def ArcLruPart_addToGhost_def
        ArcLruPart_removeOldestGhost_def)
qed

lemma ArcLruPart_put_stores:
  assumes "alru_capacity p \<noteq> 0" and "arc_find (alru_ghost p) k = None"
  shows "\<exists>n. arc_find (alru_main (snd (ArcLruPart_put p k v))) k = Some n \<and> a_value n = v"
    and "arc_find (alru_ghost (snd (ArcLruPart_put p k v))) k = None"
proof -
  show "\<exists>n. arc_find (alru_main (snd (ArcLruPart_put p k v))) k = Some n \<and> a_value n = v"
  proof (cases "arc_find (alru_main p) k")
    case None
    with assms(1) show ?thesis
      by (simp add: ArcLruPart_put_def ArcLruPart_addNewNode_def Let_def ArcLruPart_addToFront_def
          ArcNode_new_def arc_find_def)
  next
    case (Some node)
    from arc_find_SomeD [OF Some] have "a_key node = k" by simp
    with assms(1) Some show ?thesis
      by (simp add: ArcLruPart_put_def ArcLruPart_updateExistingNode_def ArcLruPart_moveToFront_def
          ArcLruPart_addToFront_def ArcLruPart_removeFromMain_def arc_find_def)
  qed
  show "arc_find (alru_ghost (snd (ArcLruPart_put p k v))) k = None"
  proof (cases "arc_find (alru_main p) k")
    case None
    then have "k \<notin> a_key ` set (alru_main p)" by (simp add: arc_find_None)
    moreover from assms(2) have "k \<notin> a_key ` set (alru_ghost p)" by (simp add: arc_find_None)
    ultimately have "k \<notin> a_key ` set (alru_ghost (ArcLruPart_evictLeastRecent p))"
      using alru_evict_ghost_keys [of p] by blast
    then have "arc_find (alru_ghost (ArcLruPart_evictLeastRecent p)) k = None"
      by (simp add: arc_find_None)
    with None assms show ?thesis
      by (simp add: ArcLruPart_put_def ArcLruPart_addNewNode_def Let_def ArcLruPart_addToFront_def)
  next
    case (Some node)
    with assms show ?thesis
      by (simp add: ArcLruPart_put_def ArcLruPart_updateExistingNode_def ArcLruPart_moveToFront_def
          ArcLruPart_addToFront_def ArcLruPart_removeFromMain_def)
  qed
qed

lemma ArcLfuPart_put_existing_ghost:
  assumes "arc_find (alfu_nodes p) k \<noteq> None"
  shows "alfu_ghost (snd (ArcLfuPart_put p k v)) = alfu_ghost p"
  using assms
  by (auto simp: ArcLfuPart_put_def ArcLfuPart_updateExistingNode_def
      ArcLfuPart_updateNodeFrequency_def Let_def)

lemma ArcCache_checkGhostCaches_none:
  assumes "arc_find (alru_ghost (arc_lruPart c)) k = None"
    and "arc_find (alfu_ghost (arc_lfuPart c)) k = None"
  shows "ArcCache_checkGhostCaches c k = (False, c)"
  using assms
  by (simp add: ArcCache_checkGhostCaches_def ArcLruPart_checkGhost_def ArcLfuPart_checkGhost_def)

lemma ArcCache_put_unfold:
  "ArcCache_put a k v =
     (snd (ArcCache_checkGhostCaches a k))
       \<lparr>arc_lruPart := snd (ArcLruPart_put (arc_lruPart (snd (ArcCache_checkGhostCaches a k))) k v),
        arc_lfuPart :=
          (if ArcLfuPart_contain (arc_lfuPart (snd (ArcCache_checkGhostCaches a k))) k
           then snd (ArcLfuPart_put (arc_lfuPart (snd (ArcCache_checkGhostCaches a k))) k v)
           else arc_lfuPart (snd (ArcCache_checkGhostCaches a k)))\<rparr>"
  by (simp add: ArcCache_put_def Let_def)

lemma ArcCache_put_get_hit:
  assumes cap: "alru_capacity (arc_lruPart (snd (ArcCache_checkGhostCaches a k))) \<noteq> 0"
    and g1: "arc_find (alru_ghost (arc_lruPart (snd (ArcCache_checkGhostCaches a k)))) k = None"
    and g2: "arc_find (alfu_ghost (arc_lfuPart (snd (ArcCache_checkGhostCaches a k)))) k = None"
  shows "\<exists>a'. ArcCache_get (ArcCache_put a k v) k out = (True, v, a')"
proof -
  let ?c = "snd (ArcCache_checkGhostCaches a k)"
  let ?lru = "snd (ArcLruPart_put (arc_lruPart ?c) k v)"
  let ?lfu = "if ArcLfuPart_contain (arc_lfuPart ?c) k
              then snd (ArcLfuPart_put (arc_lfuPart ?c) k v) else arc_lfuPart ?c"
  have p: "ArcCache_put a k v = ?c\<lparr>arc_lruPart := ?lru, arc_lfuPart := ?lfu\<rparr>"
    by (rule ArcCache_put_unfold)
  from ArcLruPart_put_stores [OF cap g1, of v] obtain n where
    n: "arc_find (alru_main ?lru) k = Some n" "a_value n = v"
    and h1: "arc_find (alru_ghost ?lru) k = None" by blast
  have "alfu_ghost ?lfu = alfu_ghost (arc_lfuPart ?c)"
    by (simp add: ArcLfuPart_contain_def ArcLfuPart_put_existing_ghost)
  with g2 have h2: "arc_find (alfu_ghost ?lfu) k = None" by simp
  have g: "ArcCache_checkGhostCaches (ArcCache_put a k v) k = (False, ArcCache_put a k v)"
    by (rule ArcCache_checkGhostCaches_none) (simp_all add: p h1 h2)
  obtain st l' where "ArcLruPart_get ?lru k out False = (True, v, st, l')"
    using n by (cases "ArcLruPart_updateNodeAccess ?lru n") (simp add: ArcLruPart_get_def)
  then show ?thesis
    unfolding ArcCache_get_def g by (simp add: p Let_def)
qed

lemma ArcCache_put_get_miss:
  assumes cap: "alru_capacity (arc_lruPart (snd (ArcCache_checkGhostCaches a k))) = 0"
    and m1: "arc_find (alru_main (arc_lruPart (snd (ArcCache_checkGhostCaches a k)))) k = None"
    and m2: "arc_find (alfu_nodes (arc_lfuPart (snd (ArcCache_checkGhostCaches a k)))) k = None"
    and g1: "arc_find (alru_ghost (arc_lruPart (snd (ArcCache_checkGhostCaches a k)))) k = None"
    and g2: "arc_find (alfu_ghost (arc_lfuPart (snd (ArcCache_checkGhostCaches a k)))) k = None"
  shows "ArcCache_put a k v = snd (ArcCache_checkGhostCaches a k)
       \<and> ArcCache_get (ArcCache_put a k v) k out = (False, out, snd (ArcCache_checkGhostCaches a k))"
proof -
  let ?c = "snd (ArcCache_checkGhostCaches a k)"
  from cap m2 have p: "ArcCache_put a k v = ?c"
    by (simp add: ArcCache_put_unfold ArcLruPart_put_def ArcLfuPart_contain_def)
  have g: "ArcCache_checkGhostCaches ?c k = (False, ?c)"
    using g1 g2 by (rule ArcCache_checkGhostCaches_none)
  from m1 m2 have "ArcCache_get ?c k out = (False, out, ?c)"
    unfolding ArcCache_get_def g by (simp add: ArcLruPart_get_def ArcLfuPart_get_def)
  with p show ?thesis by simp
qed

lemma alfu_nodes_iff:
  assumes "distinct (map fst fm)"
  shows "n \<in> set (concat (map snd fm)) \<longleftrightarrow> (\<exists>f b. map_of fm f = Some b \<and> n \<in> set b)"
proof
  assume "n \<in> set (concat (map snd fm))"
  then obtain f b where "(f, b) \<in> set fm" and "n \<in> set b" by auto
  with assms have "map_of fm f = Some b" by simp
  with \<open>n \<in> set b\<close> show "\<exists>f b. map_of fm f = Some b \<and> n \<in> set b" by blast
next
  assume "\<exists>f b. map_of fm f = Some b \<and> n \<in> set b"
  then obtain f b where "map_of fm f = Some b" and "n \<in> set b" by blast
  then have "(f, b) \<in> set fm" by (auto dest: map_of_SomeD)
  with \<open>n \<in> set b\<close> show "n \<in> set (concat (map snd fm))" by force
qed

lemma size_t_inc_neq: "size_t_inc x \<noteq> x"
proof
  assume e: "size_t_inc x = x"
  have "size_t_inc x < 2 ^ 64" by (simp add: size_t_inc_def)
  with e have "x < 2 ^ 64" by simp
  then have "size_t_inc x = (if x + 1 = 2 ^ 64 then 0 else x + 1)" by (simp add: size_t_inc_def)
  with e show False by (simp split: if_splits)
qed

lemma ArcLfuPart_updateNodeFrequency_find:
  assumes w: "alfu_wf p" and f: "arc_find (alfu_nodes p) k = Some node"
  shows "\<exists>n. arc_find (alfu_nodes (ArcLfuPart_updateNodeFrequency p (node\<lparr>a_value := v\<rparr>))) k = Some n
           \<and> a_value n = v"
proof -
  define fm where "fm = alfu_freqMap p"
  define old where "old = a_accessCount node"
  define new where "new = size_t_inc old"
  define nd' where "nd' = ArcNode_incrementAccessCount (node\<lparr>a_value := v\<rparr>)"
  define oldList where "oldList = filter (\<lambda>n. a_key n \<noteq> k) (freq_bucket fm old)"
  define fm1 where "fm1 = (if oldList = [] then AList.delete old fm else AList.update old oldList fm)"
  define fm2 where "fm2 = AList.update new (freq_bucket fm1 new @ [nd']) fm1"
  from arc_find_SomeD [OF f] have key: "a_key node = k" and mem: "node \<in> set (alfu_nodes p)"
    by simp_all
  from w have d: "distinct (map fst fm)"
    and cnt: "\<And>f b n. (f, b) \<in> set fm \<Longrightarrow> n \<in> set b \<Longrightarrow> a_accessCount n = f"
    and dk: "distinct (map a_key (alfu_nodes p))"
    by (auto simp: alfu_wf_def fm_def)
  have e: "alfu_freqMap (ArcLfuPart_updateNodeFrequency p (node\<lparr>a_value := v\<rparr>)) = fm2"
    by (simp add: ArcLfuPart_updateNodeFrequency_def Let_def key fm2_def fm1_def oldList_def
        nd'_def new_def old_def fm_def ArcNode_incrementAccessCount_def)
  have d1: "distinct (map fst fm1)" using d by (simp add: fm1_def distinct_update distinct_delete)
  then have d2: "distinct (map fst fm2)" by (simp only: fm2_def distinct_update)
  have ne: "new \<noteq> old" unfolding new_def by (rule size_t_inc_neq)
  have m1: "map_of fm1 g = (if g = old then (if oldList = [] then None else Some oldList)
                            else map_of fm g)" for g
    by (simp add: fm1_def update_conv' delete_conv')
  have m2: "map_of fm2 g = (if g = new then Some (freq_bucket fm1 new @ [nd']) else map_of fm1 g)"
    for g
    by (simp add: fm2_def update_conv')
  from ne have "map_of fm1 new = map_of fm new" by (simp add: m1)
  then have b1: "freq_bucket fm1 new = freq_bucket fm new" by (simp only: freq_bucket_def)
  have k': "a_key nd' = k" by (simp add: nd'_def ArcNode_incrementAccessCount_def key)
  have v': "a_value nd' = v" by (simp add: nd'_def ArcNode_incrementAccessCount_def)
  have "map_of fm2 new = Some (freq_bucket fm1 new @ [nd'])" by (simp add: m2)
  then have in2: "nd' \<in> set (concat (map snd fm2))"
    unfolding alfu_nodes_iff [OF d2] by (intro exI [of _ new] exI [of _ "freq_bucket fm1 new @ [nd']"]) simp
  have only: "a_value n = v" if n: "n \<in> set (concat (map snd fm2))" and nk: "a_key n = k" for n
  proof -
    from n obtain g b where g: "map_of fm2 g = Some b" and nb: "n \<in> set b"
      unfolding alfu_nodes_iff [OF d2] by blast
    have other: False if "map_of fm h = Some b'" and "n \<in> set b'" and "h \<noteq> old" for h b'
    proof -
      from that(1) have hb: "(h, b') \<in> set fm" by (rule map_of_SomeD)
      with that(2) have "n \<in> set (alfu_nodes p)" by (force simp: alfu_nodes_def fm_def)
      with mem dk nk key have "n = node"
        by (metis distinct_map inj_onD)
      with cnt [OF hb that(2)] that(3) show False by (simp add: old_def)
    qed
    show ?thesis
    proof (cases "g = new")
      case True
      with g m2 [of g] have "b = freq_bucket fm new @ [nd']" by (simp add: b1)
      with nb have "n = nd' \<or> n \<in> set (freq_bucket fm new)" by auto
      then show ?thesis
      proof
        assume "n = nd'" with v' show ?thesis by simp
      next
        assume a: "n \<in> set (freq_bucket fm new)"
        then obtain b' where "map_of fm new = Some b'" and "n \<in> set b'"
          by (cases "map_of fm new") (auto simp: freq_bucket_def)
        with other [of new b'] ne show ?thesis by blast
      qed
    next
      case False
      with g m2 [of g] have g1: "map_of fm1 g = Some b" by simp
      show ?thesis
      proof (cases "g = old")
        case True
        with g1 m1 [of g] have "b = oldList" by (simp split: if_splits)
        with nb nk show ?thesis by (simp add: oldList_def)
      next
        case False
        with g1 m1 [of g] have "map_of fm g = Some b" by simp
        from other [OF this nb False] show ?thesis ..
      qed
    qed
  qed
  from in2 k' have "k \<in> a_key ` set (concat (map snd fm2))" by force
  then obtain n where fn: "arc_find (concat (map snd fm2)) k = Some n"
    using arc_find_None [of "concat (map snd fm2)" k] by (cases "arc_find (concat (map snd fm2)) k") auto
  from arc_find_SomeD [OF fn] only have "a_value n = v" by blast
  with fn show ?thesis by (simp add: alfu_nodes_def e)
qed

lemma ArcCache_put_get_hit_lfu:
  assumes cap: "alru_capacity (arc_lruPart (snd (ArcCache_checkGhostCaches a k))) = 0"
    and m1: "arc_find (alru_main (arc_lruPart (snd (ArcCache_checkGhostCaches a k)))) k = None"
    and cap2: "alfu_capacity (arc_lfuPart (snd (ArcCache_checkGhostCaches a k))) \<noteq> 0"
    and m2: "arc_find (alfu_nodes (arc_lfuPart (snd (ArcCache_checkGhostCaches a k)))) k \<noteq> None"
    and w: "alfu_wf (arc_lfuPart (snd (ArcCache_checkGhostCaches a k)))"
    and g1: "arc_find (alru_ghost (arc_lruPart (snd (ArcCache_checkGhostCaches a k)))) k = None"
    and g2: "arc_find (alfu_ghost (arc_lfuPart (snd (ArcCache_checkGhostCaches a k)))) k = None"
  shows "\<exists>a'. ArcCache_get (ArcCache_put a k v) k out = (True, v, a')"
proof -
  let ?c = "snd (ArcCache_checkGhostCaches a k)"
  let ?lfu = "snd (ArcLfuPart_put (arc_lfuPart ?c) k v)"
  from m2 obtain node where f: "arc_find (alfu_nodes (arc_lfuPart ?c)) k = Some node" by auto
  from cap m2 have p: "ArcCache_put a k v = ?c\<lparr>arc_lfuPart := ?lfu\<rparr>"
    by (simp add: ArcCache_put_unfold ArcLruPart_put_def ArcLfuPart_contain_def)
  from cap2 f have l: "?lfu = ArcLfuPart_updateNodeFrequency (arc_lfuPart ?c) (node\<lparr>a_value := v\<rparr>)"
    by (simp add: ArcLfuPart_put_def ArcLfuPart_updateExistingNode_def)
  from ArcLfuPart_updateNodeFrequency_find [OF w f, of v] obtain n where
    n: "arc_find (alfu_nodes ?lfu) k = Some n" "a_value n = v" unfolding l by blast
  have "alfu_ghost ?lfu = alfu_ghost (arc_lfuPart ?c)"
    using m2 by (rule ArcLfuPart_put_existing_ghost)
  with g2 have h2: "arc_find (alfu_ghost ?lfu) k = None" by simp
  have g: "ArcCache_checkGhostCaches (ArcCache_put a k v) k = (False, ArcCache_put a k v)"
    by (rule ArcCache_checkGhostCaches_none) (simp_all add: p g1 h2)
  from m1 n show ?thesis
    unfolding ArcCache_get_def g by (simp add: p ArcLruPart_get_def ArcLfuPart_get_def)
qed

lemma LRUKCache_put_get:
  assumes i: "lruk_inv cap hcap K c" and cap: "0 < cap" and hcap: "0 < hcap"
  shows "fst (LRUKCache_get (LRUKCache_put c k v uninit) k dflt uninit') =
     (if lruk_resident c k
         \<or> size_t_of_int K \<le> size_t_inc (lruk_history_read c k uninit)
         \<or> size_t_of_int K \<le> size_t_inc (size_t_inc (lruk_history_read c k uninit))
      then v else dflt)"
proof -
  from i have im: "lru_inv (lruk_main c)" and ih: "lru_inv (lruk_historyList c)"
    and cm: "lru_capacity (lruk_main c) = cap" and ch: "lru_capacity (lruk_historyList c) = hcap"
    and K: "lruk_k c = K"
    by (simp_all add: lruk_inv_def)
  let ?c' = "LRUKCache_put c k v uninit"
  show ?thesis
  proof (cases "lruk_resident c k \<or> size_t_of_int K \<le> size_t_inc (lruk_history_read c k uninit)")
    case True
    let ?m1 = "snd (snd (LRUCache_get (lruk_main c) k v))"
    have "\<exists>node. lru_find (lruk_main ?c') k = Some node \<and> n_value node = v"
    proof (cases "lruk_resident c k")
      case True
      then have m: "lruk_main ?c' = LRUCache_put ?m1 k v"
        by (simp add: lruk_put_main lruk_resident_def)
      from im have "lru_inv ?m1" by (rule lru_inv_get)
      moreover from cap cm have "0 < lru_capacity ?m1" by simp
      ultimately show ?thesis unfolding m by (rule lru_find_put_same)
    next
      case False
      with True K have m: "lruk_main ?c' = LRUCache_put (lruk_main c) k v"
        by (simp add: lruk_put_main lruk_resident_def)
      from cap cm have "0 < lru_capacity (lruk_main c)" by simp
      with im show ?thesis unfolding m by (rule lru_find_put_same)
    qed
    then obtain node where "lru_find (lruk_main ?c') k = Some node" and "n_value node = v"
      by blast
    with LRUKCache_get_hit [of ?c' k node dflt uninit'] have "fst (LRUKCache_get ?c' k dflt uninit') = v"
      by simp
    with True show ?thesis by auto
  next
    case False
    then have nr: "lru_find (lruk_main c) k = None"
      and lt: "\<not> size_t_of_int K \<le> size_t_inc (lruk_history_read c k uninit)"
      by (simp_all add: lruk_resident_def)
    obtain hc h1 where b: "lruk_bump_history (lruk_historyList c) k uninit = (hc, h1)"
      by (cases "lruk_bump_history (lruk_historyList c) k uninit")
    with lruk_bump_count [of "lruk_historyList c" k uninit]
    have hc: "hc = size_t_inc (lruk_history_read c k uninit)"
      by (simp add: lruk_history_read_def)
    from nr b lt K have p: "?c' = c\<lparr>lruk_main := lruk_main c, lruk_historyList := h1,
        lruk_historyValueMap := AList.update k v (lruk_historyValueMap c)\<rparr>"
      by (simp add: LRUKCache_put_def LRUCache_get_def Let_def hc)
    from hcap ch have "0 < lru_capacity (lruk_historyList c)" by simp
    from lruk_history_after_bump [OF ih this, of k uninit] b obtain hn where
      hn: "lru_find h1 k = Some hn" "n_value hn = hc" by auto
    then have r: "lruk_history_read ?c' k uninit' = hc" by (simp add: p lruk_history_read_def)
    have st: "map_of (lruk_historyValueMap ?c') k = Some v"
      by (simp add: p update_conv')
    have nr': "lru_find (lruk_main ?c') k = None" by (simp add: p nr)
    have K': "lruk_k ?c' = K" by (simp add: p K)
    have "fst (LRUKCache_get ?c' k dflt uninit') = (if size_t_of_int K \<le> size_t_inc hc then v else dflt)"
      by (simp only: LRUKCache_get_miss [OF nr'] K' r st option.simps)
    with False show ?thesis by (simp add: hc)
  qed
qed





end
